theory Spec2Isabelle
  imports Complex_Main "HOL-Library.Sublist" "HOL-Library.AList" "HOL-Library.Multiset"
begin

section \<open>Strings\<close>

text \<open>
  A comment is a JavaScript string. It is modelled as a \<^typ>\<open>string\<close>, whose characters are
  the code units 0 to 255, read as the first 256 code points of Unicode (ASCII and Latin-1).
  Numbers are IEEE doubles in the source; the model computes with exact rationals and keeps the
  values that are not numbers (\<open>NaN\<close>, the infinities) as constructors of their own.
\<close>

definition code :: "char \<Rightarrow> nat" where
  "code c = of_char c"

text \<open>\<open>String.prototype.toLowerCase\<close>: A-Z, and in Latin-1 the letters 192-214 and 216-222.\<close>

definition toLowerChar :: "char \<Rightarrow> char" where
  "toLowerChar c =
     (if (65 \<le> code c \<and> code c \<le> 90) \<or> (192 \<le> code c \<and> code c \<le> 222 \<and> code c \<noteq> 215)
      then char_of (code c + 32) else c)"

definition toLowerCase :: "string \<Rightarrow> string" where
  "toLowerCase s = map toLowerChar s"

text \<open>
  \<open>s.includes(w)\<close>: \<open>w\<close> occurs in \<open>s\<close> as a contiguous substring. (\<open>includes\<close> is a
  keyword of Isabelle, hence the suffix.)
\<close>

fun includes_str :: "string \<Rightarrow> string \<Rightarrow> bool" where
  "includes_str [] w = (w = [])"
| "includes_str (c # s) w = (prefix w (c # s) \<or> includes_str s w)"

text \<open>\<open>comments.join(' ')\<close>\<close>

fun join :: "string list \<Rightarrow> string" where
  "join [] = []"
| "join [c] = c"
| "join (c # d # cs) = c @ CHR '' '' # join (d # cs)"

text \<open>The character classes of the regular expressions: \<open>\d\<close>, \<open>[a-zA-Z]\<close>, \<open>\w\<close>, \<open>\s\<close>.\<close>

definition isDigit :: "char \<Rightarrow> bool" where
  "isDigit c = (48 \<le> code c \<and> code c \<le> 57)"

definition isLetter :: "char \<Rightarrow> bool" where
  "isLetter c = ((65 \<le> code c \<and> code c \<le> 90) \<or> (97 \<le> code c \<and> code c \<le> 122))"

definition isWordChar :: "char \<Rightarrow> bool" where
  "isWordChar c = (isLetter c \<or> isDigit c \<or> c = CHR ''_'')"

definition isWhitespace :: "char \<Rightarrow> bool" where
  "isWhitespace c = ((9 \<le> code c \<and> code c \<le> 13) \<or> code c = 32 \<or> code c = 160)"

section \<open>Stance classifier (SentimentAnalysis.sentimentResults)\<close>

text \<open>
  The source holds the classifier three times, with the same keyword lists, the same
  comparisons and the same confidence formulas. The one modelled is the second of
  \<open>part_001\<close>, with the labels agreement, removal and modification. The first of
  \<open>part_001\<close> adds a field \<open>stakeholderType\<close>, taken from a fixed list by the index of the
  comment; the one in \<open>part_000\<close> names the three labels positive, negative and neutral.
\<close>

datatype stance = Agreement | Removal | Modification

record SentimentResult =
  comment :: string
  sentiment :: stance
  confidence :: rat

definition positiveWords :: "string list" where
  "positiveWords = [''support'', ''excellent'', ''good'', ''positive'', ''appreciate'', ''well'',
     ''strengthen'', ''improve'', ''comprehensive'']"

definition negativeWords :: "string list" where
  "negativeWords = [''concern'', ''poor'', ''harm'', ''restrict'', ''serious'', ''drive away'',
     ''burden'', ''against'']"

definition positiveMatches :: "string \<Rightarrow> nat" where
  "positiveMatches c = length (filter (\<lambda>word. includes_str (toLowerCase c) word) positiveWords)"

definition negativeMatches :: "string \<Rightarrow> nat" where
  "negativeMatches c = length (filter (\<lambda>word. includes_str (toLowerCase c) word) negativeWords)"

text \<open>
  \<open>Math.random()\<close> is the one effect of the classifier. The values it returns, in the order of
  the calls, are a parameter \<open>rnd\<close>; the state threaded through the calls is the number of
  values drawn so far. Every value of \<open>Math.random()\<close> is at least 0 and less than 1.
\<close>

type_synonym draws = "nat \<Rightarrow> rat"

definition validDraws :: "draws \<Rightarrow> bool" where
  "validDraws rnd = (\<forall>i. 0 \<le> rnd i \<and> rnd i < 1)"

definition classify :: "draws \<Rightarrow> nat \<Rightarrow> string \<Rightarrow> SentimentResult \<times> nat" where
  "classify rnd k c =
     (if positiveMatches c > negativeMatches c then
        (\<lparr>comment = c, sentiment = Agreement,
          confidence = min (95 / 100) (6 / 10 + of_nat (positiveMatches c) * (1 / 10))\<rparr>, k)
      else if negativeMatches c > positiveMatches c then
        (\<lparr>comment = c, sentiment = Removal,
          confidence = min (95 / 100) (6 / 10 + of_nat (negativeMatches c) * (1 / 10))\<rparr>, k)
      else
        (\<lparr>comment = c, sentiment = Modification,
          confidence = 7 / 10 + rnd k * (2 / 10)\<rparr>, Suc k))"

text \<open>\<open>comments.map(...)\<close>, from the left, each call starting where the last one stopped.\<close>

fun classifyFrom :: "draws \<Rightarrow> nat \<Rightarrow> string list \<Rightarrow> SentimentResult list" where
  "classifyFrom rnd k [] = []"
| "classifyFrom rnd k (c # cs) =
     fst (classify rnd k c) # classifyFrom rnd (snd (classify rnd k c)) cs"

definition sentimentResults :: "draws \<Rightarrow> string list \<Rightarrow> SentimentResult list" where
  "sentimentResults rnd comments = classifyFrom rnd 0 comments"

section \<open>Tokenizer and stop-word filter (WordCloud.wordFrequencies)\<close>

definition stopWords :: "string list" where
  "stopWords = [
     ''the'', ''a'', ''an'', ''and'', ''or'', ''but'', ''in'', ''on'', ''at'', ''to'', ''for'', ''of'', ''with'',
     ''by'', ''is'', ''are'', ''was'', ''were'', ''be'', ''been'', ''have'', ''has'', ''had'', ''do'', ''does'',
     ''did'', ''will'', ''would'', ''could'', ''should'', ''may'', ''might'', ''must'', ''can'', ''this'',
     ''that'', ''these'', ''those'', ''i'', ''you'', ''he'', ''she'', ''it'', ''we'', ''they'', ''me'', ''him'',
     ''her'', ''us'', ''them'', ''my'', ''your'', ''his'', ''its'', ''our'', ''their'', ''as'', ''if'', ''than'',
     ''so'', ''very'', ''just'', ''now'', ''then'', ''here'', ''there'', ''when'', ''where'', ''why'', ''how'',
     ''all'', ''any'', ''both'', ''each'', ''few'', ''more'', ''most'', ''other'', ''some'', ''such'', ''no'',
     ''nor'', ''not'', ''only'', ''own'', ''same'', ''so'', ''than'', ''too'', ''very'', ''s'', ''t'', ''can'',
     ''don'', ''should'', ''ve'', ''ll'', ''d'', ''m'', ''re'', ''also'', ''like'', ''get'', ''go'', ''one'',
     ''two'', ''first'', ''last'', ''new'', ''old'', ''good'', ''bad'', ''big'', ''small'', ''long'', ''short'',
     ''high'', ''low'', ''right'', ''left'', ''next'', ''previous'', ''said'', ''say'', ''come'', ''came'',
     ''give'', ''take'', ''make'', ''know'', ''think'', ''see'', ''look'', ''want'', ''use'', ''find'',
     ''tell'', ''ask'', ''seem'', ''feel'', ''try'', ''leave'', ''call'', ''back'', ''way'', ''even'',
     ''well'', ''still'', ''however'', ''therefore'', ''thus'', ''hence'', ''accordingly'', ''consequently'',
     ''provision'', ''section'', ''clause'', ''draft'', ''amendment'', ''legislation'', ''act'', ''rule'',
     ''regulation'', ''ministry'', ''department'', ''government'', ''india'', ''indian'', ''public'',
     ''consultation'', ''comment'', ''suggestion'', ''proposal'', ''recommendation'', ''request'',
     ''regarding'', ''concerning'', ''respect'', ''matter'', ''issue'', ''subject'', ''mentioned'',
     ''stated'', ''provided'', ''specified'', ''considered'', ''proposed'', ''suggested'', ''requested'']"

text \<open>
  The pattern \<open>/^\d{1,2}[\/\-]\d{1,2}[\/\-]\d{2,4}$/\<close>, piece by piece: \<open>digitRun lo hi k w\<close>
  holds when \<open>w\<close> starts with between \<open>lo\<close> and \<open>hi\<close> digits and \<open>k\<close> accepts what follows them;
  \<open>separator k w\<close> when \<open>w\<close> starts with a slash or a hyphen and \<open>k\<close> accepts the rest.
\<close>

definition digitRun :: "nat \<Rightarrow> nat \<Rightarrow> (string \<Rightarrow> bool) \<Rightarrow> string \<Rightarrow> bool" where
  "digitRun lo hi k w =
     list_ex (\<lambda>n. n \<le> length w \<and> list_all isDigit (take n w) \<and> k (drop n w)) [lo ..< Suc hi]"

definition separator :: "(string \<Rightarrow> bool) \<Rightarrow> string \<Rightarrow> bool" where
  "separator k w = (case w of [] \<Rightarrow> False | c # r \<Rightarrow> (c = CHR ''/'' \<or> c = CHR ''-'') \<and> k r)"

definition isDateLike :: "string \<Rightarrow> bool" where
  "isDateLike w =
     digitRun 1 2 (separator (digitRun 1 2 (separator (digitRun 2 4 (\<lambda>r. r = []))))) w"

definition isNumericOrDate :: "string \<Rightarrow> bool" where
  "isNumericOrDate w =
     (if w \<noteq> [] \<and> list_all isDigit w then True
      else if length w = 4 \<and> (take 2 w = ''19'' \<or> take 2 w = ''20'') \<and> list_all isDigit (drop 2 w)
        then True
      else if isDateLike w then True
      else if length w > 2 \<and> list_ex isDigit w \<and> length (filter (\<lambda>c. \<not> isDigit c) w) < 2
        then True
      else False)"

definition suffixFragments :: "string list" where
  "suffixFragments = [''ing'', ''ion'', ''tion'', ''ness'', ''ment'', ''able'', ''ible'', ''ful'', ''less'']"

definition isMeaningfulWord :: "string \<Rightarrow> bool" where
  "isMeaningfulWord w =
     (if length w < 3 then False
      else if w \<in> set stopWords then False
      else if isNumericOrDate w then False
      else if \<not> (w \<noteq> [] \<and> list_all isLetter w) then False
      else if w \<in> set suffixFragments then False
      else True)"

text \<open>\<open>.replace(/[^\w\s]/g, ' ')\<close>\<close>

definition replaceNonWord :: "string \<Rightarrow> string" where
  "replaceNonWord s = map (\<lambda>c. if isWordChar c \<or> isWhitespace c then c else CHR '' '') s"

text \<open>
  \<open>.split(/\s+/)\<close>: the pieces between the maximal runs of whitespace, in order. A run at
  the start or at the end of the text leaves an empty piece there, and the empty text is one
  empty piece. \<open>splitFrom cur s\<close> has read \<open>cur\<close> of the current piece.
\<close>

function splitFrom :: "string \<Rightarrow> string \<Rightarrow> string list" where
  "splitFrom cur [] = [cur]"
| "splitFrom cur (c # s) =
     (if isWhitespace c then cur # splitFrom [] (dropWhile isWhitespace s)
      else splitFrom (cur @ [c]) s)"
  by pat_completeness auto
termination
  by (relation "measure (\<lambda>(cur, s). length s)") (auto simp: length_dropWhile_le less_Suc_eq_le)

definition splitWhitespace :: "string \<Rightarrow> string list" where
  "splitWhitespace s = splitFrom [] s"

definition allText :: "string list \<Rightarrow> string" where
  "allText comments = toLowerCase (join comments)"

definition candidates :: "string list \<Rightarrow> string list" where
  "candidates comments = splitWhitespace (replaceNonWord (allText comments))"

definition words :: "string list \<Rightarrow> string list" where
  "words comments = filter isMeaningfulWord (candidates comments)"

section \<open>Frequency ranker (WordCloud.wordFrequencies)\<close>

text \<open>
  A value stored in the object the \<open>reduce\<close> builds. It is a number for every word but one.
  The read \<open>acc[word]\<close> also sees what \<open>{}\<close> inherits from \<open>Object.prototype\<close>, and one
  inherited name is made of lower-case letters only and so can be a word: \<open>constructor\<close>. Its
  first read is the function \<open>Object\<close>, which is truthy, and \<open>+ 1\<close> turns it into a text:
  the text the engine prints for that function (\<open>function Object() { [native code] }\<close>)
  followed by the character 1. Every later \<open>+ 1\<close> appends another 1. \<open>ObjectText k\<close> is
  that text followed by \<open>k\<close> characters 1; it is not empty, so it is truthy, and it is no
  numeral, so a subtraction that meets it is \<open>NaN\<close>.
\<close>

datatype jsval = Num nat | ObjectText nat

type_synonym entries = "(string \<times> jsval) list"

text \<open>
  \<open>acc[word] = (acc[word] || 0) + 1\<close> on the object \<open>acc\<close>: its own properties in the order
  of their creation, which is the order \<open>Object.entries\<close> lists them in (no key is an array
  index: every key passed \<open>isMeaningfulWord\<close>). A number goes up by one (0 is falsy, and
  \<open>0 + 1\<close> is one more than 0 as well), a text gets one more 1, and a key that is not there
  starts at \<open>Object + 1\<close> when it is \<open>constructor\<close> and at \<open>0 + 1\<close> otherwise.
\<close>

definition countWord :: "entries \<Rightarrow> string \<Rightarrow> entries" where
  "countWord acc word =
     AList.update word
       (case map_of acc word of
          Some (Num n) \<Rightarrow> Num (n + 1)
        | Some (ObjectText k) \<Rightarrow> ObjectText (k + 1)
        | None \<Rightarrow> if word = ''constructor'' then ObjectText 1 else Num 1) acc"

definition wordCount :: "string list \<Rightarrow> entries" where
  "wordCount ws = foldl countWord [] ws"

text \<open>The corpora in which every count is a number.\<close>

definition inheritedFree :: "string list \<Rightarrow> bool" where
  "inheritedFree comments = (''constructor'' \<notin> set (words comments))"

text \<open>
  \<open>.sort(([, a], [, b]) => b - a)\<close>. \<open>Array.prototype.sort\<close> is the engine's, and the
  language says what it returns only for a consistent comparator, one that never returns
  \<open>NaN\<close> among other things. When every value is a number (\<open>numbers es\<close> is the entries with
  their numbers), \<open>b - a\<close> is consistent and the result is fixed: the entries by falling
  count, those of one count in the order they had (the sort is stable). When one value is a text,
  \<open>b - a\<close> is \<open>NaN\<close> for it and the order is left to the engine: it is the parameter
  \<open>engine\<close>, the function from the entries to the order this engine gives them.
\<close>

type_synonym sorter = "entries \<Rightarrow> entries"

fun numbers :: "entries \<Rightarrow> (string \<times> nat) list option" where
  "numbers [] = Some []"
| "numbers ((w, Num n) # es) = map_option (Cons (w, n)) (numbers es)"
| "numbers ((w, ObjectText k) # es) = None"

definition sortEntries :: "sorter \<Rightarrow> entries \<Rightarrow> entries" where
  "sortEntries engine es =
     (case numbers es of
        Some ns \<Rightarrow> map (\<lambda>e. (fst e, Num (snd e))) (sort_key (\<lambda>e. - int (snd e)) ns)
      | None \<Rightarrow> engine es)"

text \<open>\<open>.slice(0, 50)\<close> keeps the first 50.\<close>

definition sortedWords :: "sorter \<Rightarrow> string list \<Rightarrow> entries" where
  "sortedWords engine comments = take 50 (sortEntries engine (wordCount (words comments)))"

text \<open>
  \<open>sortedWords[0]?.[1] || 1\<close> and \<open>sortedWords[sortedWords.length - 1]?.[1] || 1\<close>: the
  value of the first and of the last entry, and 1 when there is no entry or the value is falsy.
\<close>

fun truthy :: "jsval \<Rightarrow> bool" where
  "truthy (Num n) = (n \<noteq> 0)"
| "truthy (ObjectText k) = True"

definition maxFreq :: "entries \<Rightarrow> jsval" where
  "maxFreq sw = (case sw of [] \<Rightarrow> Num 1 | e # _ \<Rightarrow> if truthy (snd e) then snd e else Num 1)"

definition minFreq :: "entries \<Rightarrow> jsval" where
  "minFreq sw = (if sw = [] then Num 1 else if truthy (snd (last sw)) then snd (last sw) else Num 1)"

text \<open>
  The numbers of the size computation. A division by zero is not an error in JavaScript:
  \<open>0 / 0\<close> is \<open>NaN\<close> and \<open>x / 0\<close> an infinity; \<open>NaN\<close> passes through \<open>*\<close>, \<open>+\<close> and
  \<open>Math.round\<close>. \<open>Math.round\<close> takes a half upwards.
\<close>

datatype jsnum = Finite rat | PosInfinity | NegInfinity | NaN

definition js_divide :: "int \<Rightarrow> int \<Rightarrow> jsnum" where
  "js_divide a b =
     (if b \<noteq> 0 then Finite (of_int a / of_int b)
      else if a = 0 then NaN else if a > 0 then PosInfinity else NegInfinity)"

text \<open>\<open>12 + (x * 24)\<close>\<close>

fun scale :: "jsnum \<Rightarrow> jsnum" where
  "scale (Finite x) = Finite (12 + x * 24)"
| "scale PosInfinity = PosInfinity"
| "scale NegInfinity = NegInfinity"
| "scale NaN = NaN"

fun js_round :: "jsnum \<Rightarrow> jsnum" where
  "js_round (Finite x) = Finite (of_int \<lfloor>x + 1 / 2\<rfloor>)"
| "js_round PosInfinity = PosInfinity"
| "js_round NegInfinity = NegInfinity"
| "js_round NaN = NaN"

text \<open>
  The field \<open>size\<close> of the source is \<open>size_px\<close> here: \<open>size\<close> is a constant of HOL. The
  field \<open>frequency\<close> holds what the object held: a number, or for \<open>constructor\<close> the text.
\<close>

record WordFrequency =
  word :: string
  frequency :: jsval
  size_px :: jsnum

text \<open>
  \<open>(frequency - minFreq) / (maxFreq - minFreq)\<close>: on three numbers the quotient of the two
  differences; a text makes its difference \<open>NaN\<close>, and a quotient with \<open>NaN\<close> is \<open>NaN\<close>.
\<close>

fun normalizedFreq :: "jsval \<Rightarrow> jsval \<Rightarrow> jsval \<Rightarrow> jsnum" where
  "normalizedFreq (Num f) (Num mn) (Num mx) = js_divide (int f - int mn) (int mx - int mn)"
| "normalizedFreq f mn mx = NaN"

definition entry :: "jsval \<Rightarrow> jsval \<Rightarrow> string \<times> jsval \<Rightarrow> WordFrequency" where
  "entry mn mx e =
     \<lparr>word = fst e, frequency = snd e, size_px = js_round (scale (normalizedFreq (snd e) mn mx))\<rparr>"

definition sized :: "entries \<Rightarrow> WordFrequency list" where
  "sized sw = map (entry (minFreq sw) (maxFreq sw)) sw"

definition wordFrequencies :: "sorter \<Rightarrow> string list \<Rightarrow> WordFrequency list" where
  "wordFrequencies engine comments =
     (if length comments = 0 then [] else sized (sortedWords engine comments))"

section \<open>Corpus summarizer (SummaryGeneration.summary)\<close>

definition positiveKeywords :: "string list" where
  "positiveKeywords = [''support'', ''excellent'', ''good'', ''positive'', ''appreciate'', ''well'',
     ''strengthen'', ''improve'', ''comprehensive'', ''initiative'']"

definition negativeKeywords :: "string list" where
  "negativeKeywords = [''concern'', ''poor'', ''harm'', ''restrict'', ''serious'', ''drive away'',
     ''burden'', ''against'', ''oppose'', ''problematic'']"

definition neutralKeywords :: "string list" where
  "neutralKeywords = [''suggest'', ''recommend'', ''consider'', ''clarify'', ''modify'', ''reasonable'',
     ''adequate'']"

definition hasPositive :: "string \<Rightarrow> bool" where
  "hasPositive c = list_ex (\<lambda>word. includes_str (toLowerCase c) word) positiveKeywords"

definition hasNegative :: "string \<Rightarrow> bool" where
  "hasNegative c = list_ex (\<lambda>word. includes_str (toLowerCase c) word) negativeKeywords"

definition hasNeutral :: "string \<Rightarrow> bool" where
  "hasNeutral c = list_ex (\<lambda>word. includes_str (toLowerCase c) word) neutralKeywords"

text \<open>
  The variables the \<open>forEach\<close> loop updates. A \<open>Set\<close> of tags is the list of its members in
  the order they were added, which is the order \<open>Array.from\<close> returns them in.
\<close>

record tally =
  positiveCount :: nat
  negativeCount :: nat
  neutralCount :: nat
  keyThemes :: "string list"
  concerns :: "string list"
  suggestions_t :: "string list"

definition add :: "string \<Rightarrow> string list \<Rightarrow> string list" where
  "add tag tags = (if tag \<in> set tags then tags else tags @ [tag])"

text \<open>One detector rule: when one of the two triggers is in the comment, the tag is added.\<close>

definition rule :: "string \<Rightarrow> string \<Rightarrow> string \<Rightarrow> string \<Rightarrow> string list \<Rightarrow> string list" where
  "rule lowerComment t1 t2 tag tags =
     (if includes_str lowerComment t1 \<or> includes_str lowerComment t2 then add tag tags else tags)"

definition countSentiment :: "tally \<Rightarrow> string \<Rightarrow> tally" where
  "countSentiment s c =
     (if hasPositive c \<and> \<not> hasNegative c then s\<lparr>positiveCount := positiveCount s + 1\<rparr>
      else if hasNegative c \<and> \<not> hasPositive c then s\<lparr>negativeCount := negativeCount s + 1\<rparr>
      else s\<lparr>neutralCount := neutralCount s + 1\<rparr>)"

definition extractThemes :: "string \<Rightarrow> string list \<Rightarrow> string list" where
  "extractThemes l t0 =
     (let t1 = rule l ''transparency'' ''accountability'' ''Corporate Transparency & Accountability'' t0;
          t2 = rule l ''compliance'' ''regulation'' ''Regulatory Compliance'' t1;
          t3 = rule l ''small business'' ''startup'' ''Impact on Small Businesses'' t2;
          t4 = rule l ''implementation'' ''timeline'' ''Implementation Concerns'' t3;
          t5 = rule l ''privacy'' ''data'' ''Data Privacy & Security'' t4
      in rule l ''governance'' ''oversight'' ''Corporate Governance'' t5)"

definition extractConcerns :: "string \<Rightarrow> string list \<Rightarrow> string list" where
  "extractConcerns l c0 =
     (let c1 = rule l ''burden'' ''cost'' ''Increased compliance burden and costs'' c0;
          c2 = rule l ''privacy'' ''confidential'' ''Privacy and confidentiality implications'' c1;
          c3 = rule l ''small'' ''startup'' ''Disproportionate impact on small businesses'' c2
      in rule l ''unclear'' ''confusing'' ''Lack of clarity in implementation guidelines'' c3)"

definition extractSuggestions :: "string \<Rightarrow> string list \<Rightarrow> string list" where
  "extractSuggestions l s0 =
     (let s1 = rule l ''phased'' ''gradual'' ''Implement changes in phases'' s0;
          s2 = rule l ''clarify'' ''clearer'' ''Provide clearer implementation guidelines'' s1;
          s3 = rule l ''exemption'' ''exception'' ''Consider exemptions for specific business categories'' s2
      in rule l ''consultation'' ''stakeholder'' ''Conduct additional stakeholder consultations'' s3)"

text \<open>The body of the \<open>forEach\<close> callback.\<close>

definition step :: "tally \<Rightarrow> string \<Rightarrow> tally" where
  "step s c =
     (let s1 = countSentiment s c; l = toLowerCase c
      in s1\<lparr>keyThemes := extractThemes l (keyThemes s1),
            concerns := extractConcerns l (concerns s1),
            suggestions_t := extractSuggestions l (suggestions_t s1)\<rparr>)"

definition initial :: tally where
  "initial = \<lparr>positiveCount = 0, negativeCount = 0, neutralCount = 0,
     keyThemes = [], concerns = [], suggestions_t = []\<rparr>"

definition forEach :: "string list \<Rightarrow> tally" where
  "forEach comments = foldl step initial comments"

datatype overall = Positive | Negative | Mixed

definition overallOf :: "tally \<Rightarrow> overall" where
  "overallOf s =
     (if positiveCount s > negativeCount s \<and> positiveCount s > neutralCount s then Positive
      else if negativeCount s > positiveCount s \<and> negativeCount s > neutralCount s then Negative
      else Mixed)"

text \<open>
  The object the source returns. Field names are global in a theory, so the fields that
  share a name with a loop variable or with a constant of HOL carry a suffix:
  \<open>positive\<close>, \<open>negative\<close> and \<open>neutral\<close> are \<open>positive_n\<close>, \<open>negative_n\<close> and \<open>neutral_n\<close>,
  \<open>sentimentDistribution\<close> is the field \<open>distribution\<close> and \<open>keyThemes\<close> is \<open>keyThemes_r\<close>; in
  the loop's variables, the set \<open>suggestions\<close> is \<open>suggestions_t\<close>.
\<close>

record sentimentDistribution =
  positive_n :: nat
  negative_n :: nat
  neutral_n :: nat

record Summary =
  totalComments :: nat
  distribution :: sentimentDistribution
  overallSentiment :: overall
  keyThemes_r :: "string list"
  mainConcerns :: "string list"
  suggestions :: "string list"

text \<open>\<open>null\<close> is \<open>None\<close>.\<close>

definition summary :: "string list \<Rightarrow> Summary option" where
  "summary comments =
     (if length comments = 0 then None
      else let s = forEach comments in
        Some \<lparr>totalComments = length comments,
          distribution = \<lparr>positive_n = positiveCount s, negative_n = negativeCount s,
            neutral_n = neutralCount s\<rparr>,
          overallSentiment = overallOf s,
          keyThemes_r = keyThemes s, mainConcerns = concerns s, suggestions = suggestions_t s\<rparr>)"

section \<open>Inputs of the scenarios\<close>

definition scenario :: "string list" where
  "scenario = [''I strongly support this excellent amendment.'',
     ''This is a poor and harmful proposal that will drive away businesses.'',
     ''Please consider a phased rollout and clarify the timeline.'']"

text \<open>A source of random numbers that always returns one half.\<close>

definition halfDraws :: draws where
  "halfDraws i = 1 / 2"

text \<open>Corpora for the ranking: three counts that differ, and 51 distinct words.\<close>

definition threeCounts :: "string list" where
  "threeCounts = [''alpha beta gamma gamma'', ''delta delta delta'']"

definition fiftyOne :: "string list" where
  "fiftyOne = [''qaa qab qac qad qae qaf qag qah qai qaj qak qal qam qan qao qap qaq qar qas qat qau qav qaw qax qay qaz qba qbb qbc qbd qbe qbf qbg qbh qbi qbj qbk qbl qbm qbn qbo qbp qbq qbr qbs qbt qbu qbv qbw qbx qby'']"

text \<open>The same 51 words, the last of them a second time.\<close>

definition fiftyOneTwice :: "string list" where
  "fiftyOneTwice = fiftyOne @ [''qby'']"

text \<open>A corpus with the inherited name, twice, and an engine that reverses what it cannot sort.\<close>

definition withConstructor :: "string list" where
  "withConstructor = [''the constructor signs'', ''constructor signs twice'']"

definition reversing :: sorter where
  "reversing es = rev es"

section \<open>The specification's reading of the tokenizer and of the ranker\<close>

text \<open>
  The tokenizer as the specification words it: every character that is not a letter or
  whitespace becomes a space, digits too.
\<close>

definition replaceNonLetter_spec :: "string \<Rightarrow> string" where
  "replaceNonLetter_spec s = map (\<lambda>c. if isLetter c \<or> isWhitespace c then c else CHR '' '') s"

definition candidates_spec :: "string list \<Rightarrow> string list" where
  "candidates_spec comments = splitWhitespace (replaceNonLetter_spec (allText comments))"

text \<open>
  The ranker as the specification words it, on the token stream: the distinct tokens in the
  order of their first occurrence, each with the number of its occurrences; sorted by falling
  count, ties in that order (the sort is stable); the first 50. \<open>firstSeen ws w\<close> is the
  place of the first occurrence of \<open>w\<close> in \<open>ws\<close>.
\<close>

definition firstSeen :: "string list \<Rightarrow> string \<Rightarrow> nat" where
  "firstSeen ws w = length (takeWhile (\<lambda>v. v \<noteq> w) ws)"

definition occurrences_spec :: "string list \<Rightarrow> (string \<times> nat) list" where
  "occurrences_spec ws = map (\<lambda>w. (w, count_list ws w)) (rev (remdups (rev ws)))"

definition ranked_spec :: "string list \<Rightarrow> (string \<times> nat) list" where
  "ranked_spec ws = take 50 (sort_key (\<lambda>e. - int (snd e)) (occurrences_spec ws))"

text \<open>
  The round trip as the specification words it: the words of the ranking are all tokens at
  least as frequent as the 50th entry, or all tokens when fewer than 50 are distinct.
  \<open>reaches c v\<close> is the comparison \<open>c >= v\<close> of a count with a stored value.
\<close>

fun reaches :: "nat \<Rightarrow> jsval \<Rightarrow> bool" where
  "reaches c (Num n) = (n \<le> c)"
| "reaches c (ObjectText k) = False"

definition roundTrip_spec :: "sorter \<Rightarrow> string list \<Rightarrow> bool" where
  "roundTrip_spec engine comments =
     (let r = wordFrequencies engine comments; ws = words comments
      in set (map word r) =
           (if length (remdups ws) < 50 then set ws
            else {w \<in> set ws. reaches (count_list ws w) (frequency (r ! 49))}))"

section \<open>A run of the ranker\<close>

text \<open>
  What the language requires of the sort, not how the engine meets it. On numbers:
  a permutation of the entries, by falling count, the entries of one count in the order they
  had. With a text among the values: the order of the engine. \<open>ranking engine comments r\<close>
  holds when \<open>r\<close> is a result of \<open>wordFrequencies\<close> on an engine whose sort does that.
\<close>

definition stableSorted :: "(string \<times> nat) list \<Rightarrow> (string \<times> nat) list \<Rightarrow> bool" where
  "stableSorted es ss =
     (mset ss = mset es \<and> sorted_wrt (\<lambda>a b. snd a \<ge> snd b) ss \<and>
      (\<forall>n. filter (\<lambda>e. snd e = n) ss = filter (\<lambda>e. snd e = n) es))"

definition sortResult :: "sorter \<Rightarrow> entries \<Rightarrow> entries \<Rightarrow> bool" where
  "sortResult engine es ss =
     (case numbers es of
        Some ns \<Rightarrow> (\<exists>ms. stableSorted ns ms \<and> ss = map (\<lambda>e. (fst e, Num (snd e))) ms)
      | None \<Rightarrow> ss = engine es)"

definition ranking :: "sorter \<Rightarrow> string list \<Rightarrow> WordFrequency list \<Rightarrow> bool" where
  "ranking engine comments r =
     (if length comments = 0 then r = []
      else (\<exists>ss. sortResult engine (wordCount (words comments)) ss \<and> r = sized (take 50 ss)))"

section \<open>The classifier\<close>

lemma toLowerChar_idem: "toLowerChar (toLowerChar c) = toLowerChar c"
  by (auto simp add: toLowerChar_def code_def)

lemma toLowerCase_idem: "toLowerCase (toLowerCase s) = toLowerCase s"
  by (simp add: toLowerCase_def toLowerChar_idem)

lemma classifyFrom_length: "length (classifyFrom rnd k cs) = length cs"
  by (induction cs arbitrary: k) simp_all

lemma classifyFrom_nth:
  "i < length cs \<Longrightarrow> \<exists>j. classifyFrom rnd k cs ! i = fst (classify rnd j (cs ! i))"
proof (induction cs arbitrary: k i)
  case Nil
  then show ?case by simp
next
  case (Cons c cs)
  show ?case
  proof (cases i)
    case 0
    then show ?thesis by auto
  next
    case (Suc m)
    with Cons.prems have "m < length cs" by simp
    from Cons.IH [OF this, of "snd (classify rnd k c)"] Suc show ?thesis by simp
  qed
qed

lemma matches_card:
  assumes "distinct ws"
  shows "length (filter P ws) = card {w \<in> set ws. P w}"
proof -
  have "card (set (filter P ws)) = length (filter P ws)"
    by (rule distinct_card) (simp add: assms)
  then show ?thesis
    by simp
qed

lemma distinct_positiveWords: "distinct positiveWords"
  by (simp add: positiveWords_def)

lemma distinct_negativeWords: "distinct negativeWords"
  by (simp add: negativeWords_def)

lemma validDraws_halfDraws: "validDraws halfDraws"
  by (simp add: validDraws_def halfDraws_def)

text \<open>
  C4. For every comment of the input, the result carries that comment and: when more agreement
  keywords than removal keywords are present, the label agreement with confidence
  min(0.95, 0.6 + 0.1 * agreement count); when more removal keywords are present, the label
  removal with confidence min(0.95, 0.6 + 0.1 * removal count); on a tie (0/0 included) the
  label modification with a confidence of at least 0.7 and less than 0.9. A count is the
  number of keywords of the list that occur in the lower-cased comment, each keyword once,
  and lower-casing the comment beforehand does not change it.
\<close>

theorem stance_classifier:
  assumes "validDraws rnd" and "i < length comments"
  shows "let r = sentimentResults rnd comments ! i; c = comments ! i;
             p = positiveMatches c; n = negativeMatches c
         in comment r = c \<and>
            (p > n \<longrightarrow> sentiment r = Agreement \<and> confidence r = min (95 / 100) (6 / 10 + 1 / 10 * of_nat p)) \<and>
            (n > p \<longrightarrow> sentiment r = Removal \<and> confidence r = min (95 / 100) (6 / 10 + 1 / 10 * of_nat n)) \<and>
            (p = n \<longrightarrow> sentiment r = Modification \<and> 7 / 10 \<le> confidence r \<and> confidence r < 9 / 10) \<and>
            p = card {w \<in> set positiveWords. includes_str (toLowerCase c) w} \<and>
            n = card {w \<in> set negativeWords. includes_str (toLowerCase c) w} \<and>
            positiveMatches (toLowerCase c) = p \<and> negativeMatches (toLowerCase c) = n"
proof -
  obtain j where j: "sentimentResults rnd comments ! i = fst (classify rnd j (comments ! i))"
    using classifyFrom_nth [OF assms(2)] by (auto simp add: sentimentResults_def)
  have r: "0 \<le> rnd j" "rnd j < 1"
    using assms(1) by (simp_all add: validDraws_def)
  have p: "positiveMatches (comments ! i) =
      card {w \<in> set positiveWords. includes_str (toLowerCase (comments ! i)) w}"
    unfolding positiveMatches_def by (rule matches_card [OF distinct_positiveWords])
  have n: "negativeMatches (comments ! i) =
      card {w \<in> set negativeWords. includes_str (toLowerCase (comments ! i)) w}"
    unfolding negativeMatches_def by (rule matches_card [OF distinct_negativeWords])
  have l: "positiveMatches (toLowerCase (comments ! i)) = positiveMatches (comments ! i)"
      "negativeMatches (toLowerCase (comments ! i)) = negativeMatches (comments ! i)"
    by (simp_all add: positiveMatches_def negativeMatches_def toLowerCase_idem)
  have c: "comment (fst (classify rnd j (comments ! i))) = comments ! i"
    by (simp add: classify_def)
  have a: "positiveMatches (comments ! i) > negativeMatches (comments ! i) \<longrightarrow>
      sentiment (fst (classify rnd j (comments ! i))) = Agreement \<and>
      confidence (fst (classify rnd j (comments ! i))) =
        min (95 / 100) (6 / 10 + 1 / 10 * of_nat (positiveMatches (comments ! i)))"
    by (simp add: classify_def)
  have b: "negativeMatches (comments ! i) > positiveMatches (comments ! i) \<longrightarrow>
      sentiment (fst (classify rnd j (comments ! i))) = Removal \<and>
      confidence (fst (classify rnd j (comments ! i))) =
        min (95 / 100) (6 / 10 + 1 / 10 * of_nat (negativeMatches (comments ! i)))"
    by (simp add: classify_def)
  have m: "positiveMatches (comments ! i) = negativeMatches (comments ! i) \<longrightarrow>
      sentiment (fst (classify rnd j (comments ! i))) = Modification \<and>
      7 / 10 \<le> confidence (fst (classify rnd j (comments ! i))) \<and>
      confidence (fst (classify rnd j (comments ! i))) < 9 / 10"
    using r by (simp add: classify_def)
  show ?thesis
    unfolding Let_def j using c a b m p n l by simp
qed

text \<open>The comment "Good and well" holds two agreement keywords and no removal keyword.\<close>

theorem stance_classifier_witness:
  "validDraws halfDraws \<and> (0::nat) < length [''Good and well'', ''fine''] \<and>
   sentiment (sentimentResults halfDraws [''Good and well'', ''fine''] ! 0) = Agreement \<and>
   confidence (sentimentResults halfDraws [''Good and well'', ''fine''] ! 0) = 8 / 10"
proof -
  have l: "(0::nat) < length [''Good and well'', ''fine'']" by simp
  have p: "positiveMatches ''Good and well'' = 2" by code_simp
  have n: "negativeMatches ''Good and well'' = 0" by code_simp
  show ?thesis
    using stance_classifier [OF validDraws_halfDraws l] validDraws_halfDraws p n
    by (simp add: Let_def)
qed

lemma scenario_matches:
  "map positiveMatches scenario = [2, 0, 0] \<and> map negativeMatches scenario = [0, 3, 0]"
  unfolding scenario_def by code_simp

lemma scenario_classified:
  "sentimentResults rnd scenario =
     [\<lparr>comment = scenario ! 0, sentiment = Agreement, confidence = 8 / 10\<rparr>,
      \<lparr>comment = scenario ! 1, sentiment = Removal, confidence = 9 / 10\<rparr>,
      \<lparr>comment = scenario ! 2, sentiment = Modification, confidence = 7 / 10 + rnd 0 * (2 / 10)\<rparr>]"
  using scenario_matches
  by (simp add: scenario_def sentimentResults_def classify_def)

lemma scenario_summary:
  "summary scenario = Some \<lparr>totalComments = 3,
     distribution = \<lparr>positive_n = 1, negative_n = 1, neutral_n = 1\<rparr>,
     overallSentiment = Mixed, keyThemes_r = [''Implementation Concerns''], mainConcerns = [],
     suggestions = [''Implement changes in phases'', ''Provide clearer implementation guidelines'']\<rparr>"
  unfolding scenario_def by code_simp

section \<open>The scenario of three comments\<close>

text \<open>
  C1, as amended. On the three comments of the scenario the classifier returns agreement with
  confidence 0.8, removal with confidence 0.9 (three removal keywords: poor, harm, drive away)
  and modification with confidence 0.7 + 0.2 * the random draw. The themes of the summary are
  exactly "Implementation Concerns" (the third comment holds the trigger "timeline"), and its
  suggestions are "Implement changes in phases" and "Provide clearer implementation guidelines".
\<close>

theorem scenario_results:
  "map sentiment (sentimentResults rnd scenario) = [Agreement, Removal, Modification] \<and>
   map confidence (sentimentResults rnd scenario) = [8 / 10, 9 / 10, 7 / 10 + rnd 0 * (2 / 10)] \<and>
   map_option keyThemes_r (summary scenario) = Some [''Implementation Concerns''] \<and>
   map_option suggestions (summary scenario) =
     Some [''Implement changes in phases'', ''Provide clearer implementation guidelines'']"
  by (simp add: scenario_classified scenario_summary)

text \<open>
  C1 as stated fails twice: the confidence of the second result is not within 0.05 of 0.8,
  and the set of themes is not empty.
\<close>

theorem scenario_as_claimed_counterexample:
  "\<not> \<bar>confidence (sentimentResults halfDraws scenario ! 1) - 8 / 10\<bar> < 1 / 20 \<and>
   map_option keyThemes_r (summary scenario) \<noteq> Some []"
  by (simp add: scenario_classified scenario_summary)

section \<open>The summarizer\<close>

lemma counts_foldl:
  "positiveCount (foldl step s cs) + negativeCount (foldl step s cs) + neutralCount (foldl step s cs)
     = positiveCount s + negativeCount s + neutralCount s + length cs"
  by (induction cs arbitrary: s) (simp_all add: step_def countSentiment_def Let_def)

lemma positiveCount_foldl:
  "positiveCount (foldl step s cs) =
     positiveCount s + length (filter (\<lambda>c. hasPositive c \<and> \<not> hasNegative c) cs)"
  by (induction cs arbitrary: s) (simp_all add: step_def countSentiment_def Let_def)

lemma negativeCount_foldl:
  "negativeCount (foldl step s cs) =
     negativeCount s + length (filter (\<lambda>c. hasNegative c \<and> \<not> hasPositive c) cs)"
  by (induction cs arbitrary: s) (simp_all add: step_def countSentiment_def Let_def)

lemma neutralCount_foldl:
  "neutralCount (foldl step s cs) =
     neutralCount s + length (filter (\<lambda>c. hasPositive c = hasNegative c) cs)"
  by (induction cs arbitrary: s) (auto simp add: step_def countSentiment_def Let_def)

text \<open>
  C6. For every comment sequence, the positive count is the number of comments with a
  positive-signal keyword and no negative-signal keyword, the negative count the number of
  comments with a negative-signal keyword and no positive-signal keyword, and the neutral
  count the number of all other comments. When there is a comment, the summary exists, reports
  these counts, and its overall sentiment is positive exactly when the positive count exceeds
  both other counts, negative exactly when the negative count exceeds both other counts, and
  mixed exactly in the remaining cases.
\<close>

theorem summary_sentiment:
  "positiveCount (forEach comments) = length (filter (\<lambda>c. hasPositive c \<and> \<not> hasNegative c) comments) \<and>
   negativeCount (forEach comments) = length (filter (\<lambda>c. hasNegative c \<and> \<not> hasPositive c) comments) \<and>
   neutralCount (forEach comments) =
     length (filter (\<lambda>c. \<not> (hasPositive c \<and> \<not> hasNegative c) \<and> \<not> (hasNegative c \<and> \<not> hasPositive c)) comments) \<and>
   (comments \<noteq> [] \<longrightarrow>
     (\<exists>s. summary comments = Some s \<and>
        positive_n (distribution s) = positiveCount (forEach comments) \<and>
        negative_n (distribution s) = negativeCount (forEach comments) \<and>
        neutral_n (distribution s) = neutralCount (forEach comments) \<and>
        (overallSentiment s = Positive \<longleftrightarrow>
           positive_n (distribution s) > negative_n (distribution s) \<and>
           positive_n (distribution s) > neutral_n (distribution s)) \<and>
        (overallSentiment s = Negative \<longleftrightarrow>
           negative_n (distribution s) > positive_n (distribution s) \<and>
           negative_n (distribution s) > neutral_n (distribution s)) \<and>
        (overallSentiment s = Mixed \<longleftrightarrow>
           \<not> (positive_n (distribution s) > negative_n (distribution s) \<and>
              positive_n (distribution s) > neutral_n (distribution s)) \<and>
           \<not> (negative_n (distribution s) > positive_n (distribution s) \<and>
              negative_n (distribution s) > neutral_n (distribution s)))))"
proof -
  have eq: "(\<lambda>c. \<not> (hasPositive c \<and> \<not> hasNegative c) \<and> \<not> (hasNegative c \<and> \<not> hasPositive c))
      = (\<lambda>c. hasPositive c = hasNegative c)"
    by auto
  show ?thesis
    unfolding eq
    by (auto simp add: forEach_def positiveCount_foldl negativeCount_foldl neutralCount_foldl
        initial_def summary_def Let_def overallOf_def)
qed

text \<open>Two comments with a positive keyword only, one with a negative keyword only.\<close>

theorem summary_sentiment_witness:
  "[''good'', ''well done'', ''poor''] \<noteq> [] \<and>
   (\<exists>s. summary [''good'', ''well done'', ''poor''] = Some s \<and>
      positive_n (distribution s) = 2 \<and> negative_n (distribution s) = 1 \<and>
      neutral_n (distribution s) = 0 \<and> overallSentiment s = Positive)"
proof -
  have p: "hasPositive ''good''" "hasPositive ''well done''" "\<not> hasPositive ''poor''"
    by code_simp+
  have n: "\<not> hasNegative ''good''" "\<not> hasNegative ''well done''" "hasNegative ''poor''"
    by code_simp+
  show ?thesis
    using summary_sentiment [of "[''good'', ''well done'', ''poor'']"] p n by auto
qed

text \<open>
  C10. For every non-empty comment sequence the summary exists, its total is the length of
  the input, and its positive, negative and neutral counts add up to that total.
\<close>

theorem summary_counts_total:
  "comments \<noteq> [] \<Longrightarrow>
     \<exists>s. summary comments = Some s \<and> totalComments s = length comments \<and>
       positive_n (distribution s) + negative_n (distribution s) + neutral_n (distribution s)
         = totalComments s"
  using counts_foldl [of initial comments]
  by (simp add: summary_def forEach_def Let_def initial_def)

theorem summary_counts_total_witness:
  "[''good'', ''poor''] \<noteq> [] \<and>
     (\<exists>s. summary [''good'', ''poor''] = Some s \<and> totalComments s = 2 \<and>
       positive_n (distribution s) + negative_n (distribution s) + neutral_n (distribution s) = 2)"
  using summary_counts_total [of "[''good'', ''poor'']"] by auto

section \<open>The empty input\<close>

text \<open>
  C8. For the empty input the list of classifications is empty, the list of word frequencies
  is empty and there is no summary (\<open>null\<close>); each of the three is a value, none an error.
\<close>

theorem empty_input:
  "sentimentResults rnd [] = [] \<and> wordFrequencies engine [] = [] \<and> summary [] = None"
  by (simp add: sentimentResults_def wordFrequencies_def summary_def)

section \<open>The tokenizer\<close>

lemma wordChar_not_whitespace: "isWordChar c \<Longrightarrow> \<not> isWhitespace c"
  by (auto simp add: isWordChar_def isLetter_def isDigit_def isWhitespace_def code_def)

lemma space_whitespace: "isWhitespace (CHR '' '')"
  by (simp add: isWhitespace_def code_def)

lemma filter_dropWhile_not:
  "filter (\<lambda>c. \<not> P c) (dropWhile P s) = filter (\<lambda>c. \<not> P c) s"
  by (induction s) simp_all

lemma concat_splitFrom:
  "concat (splitFrom cur s) = cur @ filter (\<lambda>c. \<not> isWhitespace c) s"
  by (induction cur s rule: splitFrom.induct) (simp_all add: filter_dropWhile_not)

lemma splitFrom_chars:
  "t \<in> set (splitFrom cur s) \<Longrightarrow> c \<in> set t \<Longrightarrow> c \<in> set cur \<or> (c \<in> set s \<and> \<not> isWhitespace c)"
proof (induction cur s arbitrary: t rule: splitFrom.induct)
  case (1 cur)
  then show ?case by simp
next
  case (2 cur d s)
  show ?case
  proof (cases "isWhitespace d")
    case True
    with "2.prems" have "t = cur \<or> t \<in> set (splitFrom [] (dropWhile isWhitespace s))"
      by simp
    then show ?thesis
    proof
      assume "t = cur"
      with "2.prems" show ?thesis by simp
    next
      assume "t \<in> set (splitFrom [] (dropWhile isWhitespace s))"
      from "2.IH"(1) [OF True this "2.prems"(2)]
      show ?thesis by (auto dest: set_dropWhileD)
    qed
  next
    case False
    with "2.prems" have "t \<in> set (splitFrom (cur @ [d]) s)" by simp
    from "2.IH"(2) [OF False this "2.prems"(2)] False
    show ?thesis by auto
  qed
qed

lemma replaceNonWord_kept:
  "filter (\<lambda>c. \<not> isWhitespace c) (replaceNonWord s) = filter isWordChar s"
  by (induction s) (auto simp add: replaceNonWord_def wordChar_not_whitespace space_whitespace)

lemma replaceNonWord_chars:
  "c \<in> set (replaceNonWord s) \<Longrightarrow> \<not> isWhitespace c \<Longrightarrow> isWordChar c"
  by (auto simp add: replaceNonWord_def space_whitespace split: if_splits)

lemma toLowerChar_digit: "isDigit (toLowerChar c) = isDigit c"
  by (auto simp add: toLowerChar_def isDigit_def code_def)

lemma toLowerChar_digit_same: "isDigit c \<Longrightarrow> toLowerChar c = c"
  by (auto simp add: toLowerChar_def isDigit_def code_def)

lemma toLowerCase_digits: "filter isDigit (toLowerCase s) = filter isDigit s"
  by (induction s) (auto simp add: toLowerCase_def toLowerChar_digit toLowerChar_digit_same)

lemma digit_wordChar: "isDigit c \<Longrightarrow> isWordChar c"
  by (simp add: isWordChar_def)

text \<open>
  The split undoes the join: tokens without whitespace, none of them empty, joined by single
  spaces, are the pieces of the text.
\<close>

lemma splitFrom_token:
  "\<forall>c \<in> set t. \<not> isWhitespace c \<Longrightarrow> splitFrom cur (t @ s) = splitFrom (cur @ t) s"
  by (induction t arbitrary: cur) simp_all

lemma join_Cons: "\<exists>rest. join (t # ts) = t @ rest"
  by (cases ts) simp_all

lemma splitWhitespace_join:
  assumes "ts \<noteq> []" and "\<forall>t \<in> set ts. t \<noteq> [] \<and> (\<forall>c \<in> set t. \<not> isWhitespace c)"
  shows "splitWhitespace (join ts) = ts"
  using assms
proof (induction ts rule: join.induct)
  case 1
  then show ?case by simp
next
  case (2 t)
  then have "splitFrom [] (t @ []) = splitFrom ([] @ t) []"
    by (intro splitFrom_token) simp
  then show ?case by (simp add: splitWhitespace_def)
next
  case (3 t u ts)
  from "3.prems" have t: "\<forall>c \<in> set t. \<not> isWhitespace c" and u: "u \<noteq> []" "\<not> isWhitespace (hd u)"
    by auto
  obtain rest where rest: "join (u # ts) = u @ rest"
    using join_Cons by blast
  from u rest have d: "dropWhile isWhitespace (join (u # ts)) = join (u # ts)"
    by (cases u) simp_all
  have "splitFrom [] (t @ CHR '' '' # join (u # ts)) = splitFrom ([] @ t) (CHR '' '' # join (u # ts))"
    using t by (rule splitFrom_token)
  also have "\<dots> = t # splitFrom [] (join (u # ts))"
    by (simp add: space_whitespace d)
  also have "splitFrom [] (join (u # ts)) = u # ts"
    using "3.IH" "3.prems" by (simp add: splitWhitespace_def)
  finally show ?case by (simp add: splitWhitespace_def)
qed

text \<open>
  C2, as amended. After lower-casing, every character that is neither a word character
  (an ASCII letter, a digit or the underscore) nor whitespace is replaced by a space, and the
  candidate tokens are the pieces of that text between its runs of whitespace. So every
  candidate consists of word characters only, the candidates spell, in order, exactly the
  word characters of the lower-cased text, and every digit of the corpus is still there:
  digits are not destroyed at this step (tokens with a digit are rejected later, by
  \<open>isMeaningfulWord\<close>).
\<close>

theorem candidates_word_characters:
  "candidates comments =
     splitWhitespace (map (\<lambda>c. if isWordChar c \<or> isWhitespace c then c else CHR '' '')
       (toLowerCase (join comments))) \<and>
   list_all (\<lambda>t. list_all isWordChar t) (candidates comments) \<and>
   concat (candidates comments) = filter isWordChar (toLowerCase (join comments)) \<and>
   filter isDigit (concat (candidates comments)) = filter isDigit (join comments)"
proof -
  have a: "candidates comments =
     splitWhitespace (map (\<lambda>c. if isWordChar c \<or> isWhitespace c then c else CHR '' '')
       (toLowerCase (join comments)))"
    by (simp add: candidates_def allText_def replaceNonWord_def)
  have b: "list_all (\<lambda>t. list_all isWordChar t) (candidates comments)"
    unfolding list_all_iff candidates_def splitWhitespace_def
    using splitFrom_chars replaceNonWord_chars by fastforce
  have c: "concat (candidates comments) = filter isWordChar (toLowerCase (join comments))"
    by (simp add: candidates_def splitWhitespace_def concat_splitFrom replaceNonWord_kept
        allText_def)
  have "filter isDigit (filter isWordChar s) = filter isDigit s" for s
    by (induction s) (auto dest: digit_wordChar)
  with c have d: "filter isDigit (concat (candidates comments)) = filter isDigit (join comments)"
    by (simp add: toLowerCase_digits)
  from a b c d show ?thesis by blast
qed

text \<open>
  C2 as stated fails on a token with a digit inside: the source keeps it as one candidate,
  the specification's tokenizer splits it at the digit into two.
\<close>

theorem candidates_as_claimed_counterexample:
  "candidates [''abc1def''] = [''abc1def''] \<and> candidates_spec [''abc1def''] = [''abc'', ''def''] \<and>
   candidates [''abc1def''] \<noteq> candidates_spec [''abc1def'']"
  by (simp add: candidates_def candidates_spec_def allText_def toLowerCase_def toLowerChar_def
      replaceNonWord_def replaceNonLetter_spec_def splitWhitespace_def isWordChar_def
      isWhitespace_def isLetter_def isDigit_def code_def)


text \<open>What the filter keeps: a word of letters is never numeric or a date.\<close>

lemma letter_not_digit: "isLetter c \<Longrightarrow> \<not> isDigit c"
  by (auto simp add: isLetter_def isDigit_def)

lemma digitRun_digit:
  assumes "digitRun (Suc lo) hi k w"
  shows "list_ex isDigit w"
proof -
  from assms obtain n where n: "Suc lo \<le> n" "n \<le> length w" "list_all isDigit (take n w)"
    by (auto simp add: digitRun_def list_ex_iff)
  then obtain c r where w: "w = c # r"
    by (cases w) auto
  with n have "isDigit c"
    by (cases n) auto
  with w show ?thesis by simp
qed

lemma numeric_has_digit:
  assumes "isNumericOrDate w"
  shows "list_ex isDigit w"
proof -
  have a: "w \<noteq> [] \<and> list_all isDigit w \<Longrightarrow> list_ex isDigit w"
    by (cases w) auto
  have b: "length w = 4 \<and> list_all isDigit (drop 2 w) \<Longrightarrow> list_ex isDigit w"
  proof -
    assume h: "length w = 4 \<and> list_all isDigit (drop 2 w)"
    then have "drop 2 w \<noteq> []" by auto
    then obtain c where "c \<in> set (drop 2 w)" by (cases "drop 2 w") auto
    with h have "isDigit c" "c \<in> set w"
      by (auto simp add: list_all_iff dest: in_set_dropD)
    then show ?thesis by (auto simp add: list_ex_iff)
  qed
  have c: "isDateLike w \<Longrightarrow> list_ex isDigit w"
    unfolding isDateLike_def One_nat_def by (rule digitRun_digit)
  from assms a b c show ?thesis
    unfolding isNumericOrDate_def by (auto split: if_splits)
qed

lemma letters_not_numeric:
  assumes "list_all isLetter w"
  shows "\<not> isNumericOrDate w"
proof
  assume "isNumericOrDate w"
  then have "list_ex isDigit w" by (rule numeric_has_digit)
  then obtain c where "c \<in> set w" "isDigit c" by (auto simp add: list_ex_iff)
  with assms show False
    by (auto simp add: list_all_iff dest: letter_not_digit)
qed

lemma isMeaningfulWord_iff:
  "isMeaningfulWord w \<longleftrightarrow>
     3 \<le> length w \<and> w \<notin> set stopWords \<and> list_all isLetter w \<and> w \<notin> set suffixFragments"
  using letters_not_numeric [of w] by (auto simp add: isMeaningfulWord_def)

section \<open>The ranker\<close>

lemmas tokenizer_eval = candidates_def allText_def toLowerCase_def toLowerChar_def
  replaceNonWord_def splitWhitespace_def isWordChar_def isWhitespace_def isLetter_def
  isDigit_def code_def

lemmas meaningful_eval = isMeaningfulWord_iff stopWords_def suffixFragments_def

lemma words_Nil: "words [] = []"
  by (simp add: words_def candidates_def allText_def toLowerCase_def replaceNonWord_def
      splitWhitespace_def isMeaningfulWord_def)

lemma wordFrequencies_sized: "wordFrequencies engine cs = sized (sortedWords engine cs)"
proof (cases "cs = []")
  case True
  have "sortedWords engine [] = []"
    by (simp add: sortedWords_def sortEntries_def wordCount_def words_Nil)
  with True show ?thesis
    by (simp add: wordFrequencies_def sized_def)
next
  case False
  then show ?thesis by (simp add: wordFrequencies_def)
qed

lemmas ranker_eval = wordFrequencies_sized sortedWords_def sortEntries_def wordCount_def
  countWord_def sort_key_def sized_def entry_def maxFreq_def minFreq_def js_divide_def

lemma transparency_words: "words [''transparency''] = [''transparency'']"
  by (simp add: words_def tokenizer_eval meaningful_eval)

text \<open>
  C3, where the source departs from it. The corpus of the one comment "transparency" has one
  retained entry, of frequency 1, so \<open>maxFreq\<close> and \<open>minFreq\<close> are both 1, the normalised
  frequency is \<open>0 / 0\<close> and the size the source returns is \<open>NaN\<close>: not 12, and no integer
  between 12 and 36.
\<close>

theorem uniform_corpus_size:
  "wordFrequencies engine [''transparency''] =
     [\<lparr>word = ''transparency'', frequency = Num 1, size_px = NaN\<rparr>]"
  by (simp add: transparency_words ranker_eval)

lemma threeCounts_words:
  "words threeCounts = [''alpha'', ''beta'', ''gamma'', ''gamma'', ''delta'', ''delta'', ''delta'']"
  by (simp add: words_def threeCounts_def tokenizer_eval meaningful_eval)

lemma threeCounts_ranked:
  "wordFrequencies engine threeCounts =
     [\<lparr>word = ''delta'', frequency = Num 3, size_px = Finite 36\<rparr>,
      \<lparr>word = ''gamma'', frequency = Num 2, size_px = Finite 24\<rparr>,
      \<lparr>word = ''alpha'', frequency = Num 1, size_px = Finite 12\<rparr>,
      \<lparr>word = ''beta'', frequency = Num 1, size_px = Finite 12\<rparr>]"
  by (simp add: threeCounts_words ranker_eval floor_eq_iff)

text \<open>
  The inherited name: the word "constructor", twice in the corpus, is stored as the text of
  \<open>Object\<close> with two characters 1, its subtraction is \<open>NaN\<close>, and an engine that reverses
  what it cannot sort returns the entries in that order, every size \<open>NaN\<close>.
\<close>

lemma withConstructor_words:
  "words withConstructor = [''constructor'', ''signs'', ''constructor'', ''signs'', ''twice'']"
  by (simp add: words_def withConstructor_def tokenizer_eval meaningful_eval)

lemma withConstructor_counted:
  "wordCount (words withConstructor) =
     [(''constructor'', ObjectText 2), (''signs'', Num 2), (''twice'', Num 1)]"
  by (simp add: withConstructor_words wordCount_def countWord_def)

lemma withConstructor_ranked:
  "wordFrequencies reversing withConstructor =
     [\<lparr>word = ''twice'', frequency = Num 1, size_px = NaN\<rparr>,
      \<lparr>word = ''signs'', frequency = Num 2, size_px = NaN\<rparr>,
      \<lparr>word = ''constructor'', frequency = ObjectText 2, size_px = NaN\<rparr>]"
  by (simp add: wordFrequencies_sized sortedWords_def sortEntries_def withConstructor_counted
      reversing_def sized_def entry_def maxFreq_def minFreq_def)

text \<open>
  Every word that reaches the count consists of the letters a to z. Of the names \<open>{}\<close>
  inherits (\<open>constructor\<close>, \<open>toString\<close>, \<open>valueOf\<close>, \<open>hasOwnProperty\<close>,
  \<open>isPrototypeOf\<close>, \<open>propertyIsEnumerable\<close>, \<open>toLocaleString\<close> and the names with
  underscores), \<open>constructor\<close> is the only one such a word can be.
\<close>

lemma toLowerChar_not_upper: "\<not> (65 \<le> code (toLowerChar d) \<and> code (toLowerChar d) \<le> 90)"
  by (auto simp add: toLowerChar_def code_def)

lemma words_lower_case:
  assumes "w \<in> set (words comments)" and "c \<in> set w"
  shows "97 \<le> code c \<and> code c \<le> 122"
proof -
  from assms(1) have m: "isMeaningfulWord w" and t: "w \<in> set (splitFrom [] (replaceNonWord (allText comments)))"
    by (simp_all add: words_def candidates_def splitWhitespace_def)
  from m assms(2) have l: "isLetter c"
    by (simp add: isMeaningfulWord_iff list_all_iff)
  from splitFrom_chars [OF t assms(2)] have "c \<in> set (replaceNonWord (allText comments))"
    by simp
  then have "c = CHR '' '' \<or> c \<in> set (allText comments)"
    by (auto simp add: replaceNonWord_def split: if_splits)
  moreover from l have "c \<noteq> CHR '' ''"
    by (auto simp add: isLetter_def code_def)
  ultimately obtain d where "c = toLowerChar d"
    by (auto simp add: allText_def toLowerCase_def)
  with toLowerChar_not_upper [of d] l show ?thesis
    by (auto simp add: isLetter_def)
qed

section \<open>The counts, the order and the sizes\<close>

text \<open>The object the reduce builds, when no word is the inherited name.\<close>

lemma update_new: "k \<notin> fst ` set al \<Longrightarrow> AList.update k v al = al @ [(k, v)]"
  by (induction al) auto

lemma update_listed:
  "distinct ks \<Longrightarrow> k \<in> set ks \<Longrightarrow>
     AList.update k v (map (\<lambda>x. (x, g x)) ks) = map (\<lambda>x. (x, if x = k then v else g x)) ks"
  by (induction ks) auto

lemma map_of_listed:
  "map_of (map (\<lambda>x. (x, g x)) ks) k = (if k \<in> set ks then Some (g k) else None)"
  by (induction ks) auto

lemma wordCount_snoc: "wordCount (ws @ [w]) = countWord (wordCount ws) w"
  by (simp add: wordCount_def)

lemma wordCount_numbers:
  assumes "''constructor'' \<notin> set ws"
  shows "wordCount ws = map (\<lambda>x. (x, Num (count_list ws x))) (rev (remdups (rev ws)))"
  using assms
proof (induction ws rule: rev_induct)
  case Nil
  show ?case by (simp add: wordCount_def)
next
  case (snoc w ws)
  let ?F = "rev (remdups (rev ws))"
  from snoc have IH: "wordCount ws = map (\<lambda>x. (x, Num (count_list ws x))) ?F"
    and w: "w \<noteq> ''constructor''"
    by auto
  have d: "distinct ?F" by simp
  have s: "set ?F = set ws" by simp
  show ?case
  proof (cases "w \<in> set ws")
    case True
    have "countWord (wordCount ws) w =
        AList.update w (Num (count_list ws w + 1)) (map (\<lambda>x. (x, Num (count_list ws x))) ?F)"
      using True s by (simp add: countWord_def IH map_of_listed)
    also have "\<dots> = map (\<lambda>x. (x, if x = w then Num (count_list ws w + 1) else Num (count_list ws x))) ?F"
      using d True s by (intro update_listed) simp_all
    also have "\<dots> = map (\<lambda>x. (x, Num (count_list (ws @ [w]) x))) ?F"
      by (rule map_cong) auto
    finally show ?thesis
      using True by (simp add: wordCount_snoc)
  next
    case False
    then have z: "count_list ws w = 0" by (simp add: count_list_0_iff)
    have "countWord (wordCount ws) w =
        AList.update w (Num 1) (map (\<lambda>x. (x, Num (count_list ws x))) ?F)"
      using False s w by (simp add: countWord_def IH map_of_listed)
    also have "\<dots> = map (\<lambda>x. (x, Num (count_list ws x))) ?F @ [(w, Num 1)]"
      using False s by (intro update_new) (simp add: image_image)
    also have "map (\<lambda>x. (x, Num (count_list ws x))) ?F = map (\<lambda>x. (x, Num (count_list (ws @ [w]) x))) ?F"
      using False s by (intro map_cong) auto
    finally show ?thesis
      using False z by (simp add: wordCount_snoc)
  qed
qed

lemma numbers_lifted: "numbers (map (\<lambda>e. (fst e, Num (snd e))) ns) = Some ns"
  by (induction ns) auto

lemma wordCount_occurrences:
  "''constructor'' \<notin> set ws \<Longrightarrow>
     wordCount ws = map (\<lambda>e. (fst e, Num (snd e))) (occurrences_spec ws)"
  by (simp add: wordCount_numbers occurrences_spec_def comp_def)

lemma sortedWords_spec:
  assumes "inheritedFree comments"
  shows "sortedWords engine comments = map (\<lambda>e. (fst e, Num (snd e))) (ranked_spec (words comments))"
proof -
  from assms have "wordCount (words comments) =
      map (\<lambda>e. (fst e, Num (snd e))) (occurrences_spec (words comments))"
    unfolding inheritedFree_def by (rule wordCount_occurrences)
  then show ?thesis
    by (simp add: sortedWords_def sortEntries_def numbers_lifted ranked_spec_def take_map)
qed

text \<open>The distinct tokens in the order of their first occurrence.\<close>

lemma firstSeen_less: "w \<in> set ws \<Longrightarrow> firstSeen ws w < length ws"
  unfolding firstSeen_def by (induction ws) auto

lemma firstSeen_snoc_old: "v \<in> set ws \<Longrightarrow> firstSeen (ws @ [w]) v = firstSeen ws v"
  by (simp add: firstSeen_def takeWhile_append1)

lemma firstSeen_snoc_new: "w \<notin> set ws \<Longrightarrow> firstSeen (ws @ [w]) w = length ws"
proof -
  assume "w \<notin> set ws"
  then have "takeWhile (\<lambda>v. v \<noteq> w) (ws @ [w]) = ws @ takeWhile (\<lambda>v. v \<noteq> w) [w]"
    by (intro takeWhile_append2) auto
  then show ?thesis by (simp add: firstSeen_def)
qed

lemma firsts_in_order:
  "sorted_wrt (\<lambda>a b. firstSeen ws a < firstSeen ws b) (rev (remdups (rev ws)))"
proof (induction ws rule: rev_induct)
  case Nil
  show ?case by simp
next
  case (snoc w ws)
  let ?F = "rev (remdups (rev ws))"
  have s: "set ?F = set ws" by simp
  have old: "sorted_wrt (\<lambda>a b. firstSeen (ws @ [w]) a < firstSeen (ws @ [w]) b) ?F"
  proof (rule sorted_wrt_mono_rel [OF _ snoc.IH])
    fix a b
    assume "a \<in> set ?F" "b \<in> set ?F" "firstSeen ws a < firstSeen ws b"
    then show "firstSeen (ws @ [w]) a < firstSeen (ws @ [w]) b"
      by (simp add: firstSeen_snoc_old)
  qed
  show ?case
  proof (cases "w \<in> set ws")
    case True
    with old show ?thesis by simp
  next
    case False
    have "\<forall>a \<in> set ?F. firstSeen (ws @ [w]) a < firstSeen (ws @ [w]) w"
      using False by (simp add: firstSeen_snoc_old firstSeen_snoc_new firstSeen_less)
    with old False show ?thesis
      by (simp add: sorted_wrt_append)
  qed
qed

lemma occurrences_keys: "map fst (occurrences_spec ws) = rev (remdups (rev ws))"
  by (simp add: occurrences_spec_def comp_def)

lemma occurrences_distinct: "distinct (map fst (occurrences_spec ws))"
  by (simp add: occurrences_keys)

lemma occurrences_set: "fst ` set (occurrences_spec ws) = set ws"
proof -
  have "set (map fst (occurrences_spec ws)) = set ws"
    by (simp only: occurrences_keys) simp
  then show ?thesis by simp
qed

lemma occurrences_length: "length (occurrences_spec ws) = card (set ws)"
proof -
  have "length (occurrences_spec ws) = length (remdups (rev ws))"
    by (simp add: occurrences_spec_def)
  also have "\<dots> = card (set (rev ws))"
    by (rule length_remdups_card_conv)
  finally show ?thesis by simp
qed

lemma occurrences_entry:
  assumes "e \<in> set (occurrences_spec ws)"
  shows "fst e \<in> set ws \<and> snd e = count_list ws (fst e) \<and> 0 < snd e"
proof -
  from assms have a: "fst e \<in> set ws" "snd e = count_list ws (fst e)"
    by (auto simp add: occurrences_spec_def)
  then have "count_list ws (fst e) \<noteq> 0"
    by (simp add: count_list_0_iff)
  with a show ?thesis by simp
qed

lemma occurrences_in_order:
  "sorted_wrt (\<lambda>a b. firstSeen ws (fst a) < firstSeen ws (fst b)) (occurrences_spec ws)"
  using firsts_in_order [of ws] by (simp add: occurrences_spec_def sorted_wrt_map)

text \<open>The sort: by falling count, ties in the order they had.\<close>

lemma sort_falling:
  "sorted_wrt (\<lambda>a b. snd a \<ge> snd b) (sort_key (\<lambda>e. - int (snd e)) (es :: (string \<times> nat) list))"
proof -
  have "sorted (map (\<lambda>e. - int (snd e)) (sort_key (\<lambda>e. - int (snd e)) es))"
    by (rule sorted_sort_key)
  then show ?thesis
    by (simp add: sorted_wrt_map)
qed

lemma sorted_wrt_filtered:
  "sorted_wrt R (filter P xs) \<Longrightarrow> sorted_wrt (\<lambda>a b. P a \<and> P b \<longrightarrow> R a b) xs"
  by (induction xs) (auto split: if_splits)

lemma sort_ties:
  assumes "sorted_wrt R (es :: (string \<times> nat) list)"
  shows "sorted_wrt (\<lambda>a b. snd a = snd b \<longrightarrow> R a b) (sort_key (\<lambda>e. - int (snd e)) es)"
proof -
  let ?S = "sort_key (\<lambda>e. - int (snd e)) es"
  have t: "R (?S ! i) (?S ! j)" if "i < j" "j < length ?S" "snd (?S ! i) = snd (?S ! j)" for i j
  proof -
    let ?P = "\<lambda>e. snd e = snd (?S ! j)"
    have "filter ?P ?S = filter ?P es"
      using sort_key_stable [of "\<lambda>e. - int (snd e)" "- int (snd (?S ! j))" es] by simp
    moreover have "sorted_wrt R (filter ?P es)"
      using assms by (rule sorted_wrt_filter)
    ultimately have "sorted_wrt R (filter ?P ?S)" by simp
    then have "sorted_wrt (\<lambda>a b. ?P a \<and> ?P b \<longrightarrow> R a b) ?S"
      by (rule sorted_wrt_filtered)
    with that show ?thesis
      by (simp add: sorted_wrt_iff_nth_less)
  qed
  show ?thesis
    unfolding sorted_wrt_iff_nth_less using t by blast
qed

lemma sorted_wrt_taken: "sorted_wrt P xs \<Longrightarrow> sorted_wrt P (take n xs)"
  by (metis append_take_drop_id sorted_wrt_append)

text \<open>The first 50 of the sorted entries.\<close>

lemma ranked_length: "length (ranked_spec ws) = min 50 (card (set ws))"
  by (simp add: ranked_spec_def occurrences_length min.commute)

lemma ranked_falling: "sorted_wrt (\<lambda>a b. snd a \<ge> snd b) (ranked_spec ws)"
  unfolding ranked_spec_def by (rule sorted_wrt_taken [OF sort_falling])

lemma ranked_ties:
  "sorted_wrt (\<lambda>a b. snd a = snd b \<longrightarrow> firstSeen ws (fst a) < firstSeen ws (fst b)) (ranked_spec ws)"
  unfolding ranked_spec_def by (rule sorted_wrt_taken [OF sort_ties [OF occurrences_in_order]])

lemma ranked_subset: "set (ranked_spec ws) \<subseteq> set (occurrences_spec ws)"
proof -
  have "set (ranked_spec ws) \<subseteq> set (sort_key (\<lambda>e. - int (snd e)) (occurrences_spec ws))"
    unfolding ranked_spec_def by (rule set_take_subset)
  then show ?thesis
    by (simp only: set_sort)
qed

lemma ranked_entry:
  "e \<in> set (ranked_spec ws) \<Longrightarrow> fst e \<in> set ws \<and> snd e = count_list ws (fst e) \<and> 0 < snd e"
  using ranked_subset occurrences_entry by blast

lemma distinct_keys_take_sort:
  assumes "distinct (map fst es)"
  shows "distinct (map fst (take n (sort_key f es)))"
proof -
  have "distinct (map fst (sort_key f es))"
    using assms by (metis distinct_map distinct_sort set_sort)
  then have "distinct (take n (map fst (sort_key f es)))"
    by (rule distinct_take)
  then show ?thesis
    by (simp only: take_map)
qed

lemma ranked_distinct: "distinct (map fst (ranked_spec ws))"
  unfolding ranked_spec_def by (rule distinct_keys_take_sort [OF occurrences_distinct])

lemma ranked_all:
  assumes "card (set ws) \<le> 50"
  shows "fst ` set (ranked_spec ws) = set ws"
proof -
  have "length (sort_key (\<lambda>e. - int (snd e)) (occurrences_spec ws)) \<le> 50"
    using assms by (simp add: occurrences_length)
  then have "ranked_spec ws = sort_key (\<lambda>e. - int (snd e)) (occurrences_spec ws)"
    unfolding ranked_spec_def by (rule take_all)
  then have "set (ranked_spec ws) = set (occurrences_spec ws)"
    by (simp only: set_sort)
  then show ?thesis
    by (simp only: occurrences_set)
qed

lemma falling_nth:
  assumes "sorted_wrt (\<lambda>a b. snd a \<ge> snd b) (ss :: (string \<times> nat) list)"
    and "i \<le> j" and "j < length ss"
  shows "snd (ss ! j) \<le> snd (ss ! i)"
proof (cases "i = j")
  case True
  then show ?thesis by simp
next
  case False
  with assms(2) have "i < j" by simp
  with assms(1,3) show ?thesis by (simp add: sorted_wrt_iff_nth_less)
qed

lemma ranked_above:
  assumes "n < length (ranked_spec ws)" and "Suc n = 50" and "w \<in> set ws"
    and "snd (ranked_spec ws ! n) < count_list ws w"
  shows "w \<in> fst ` set (ranked_spec ws)"
proof -
  define ss where "ss = sort_key (\<lambda>e. - int (snd e)) (occurrences_spec ws)"
  have f: "sorted_wrt (\<lambda>a b. snd a \<ge> snd b) ss"
    unfolding ss_def by (rule sort_falling)
  from assms(3) obtain e where e: "e \<in> set (occurrences_spec ws)" "fst e = w"
    using occurrences_set [of ws] by (metis imageE)
  from occurrences_entry [OF e(1)] e(2) have c: "snd e = count_list ws w" by simp
  from e(1) have "e \<in> set ss" by (simp add: ss_def)
  then obtain i where i: "i < length ss" "ss ! i = e" by (auto simp add: in_set_conv_nth)
  from assms(1) have n: "ranked_spec ws ! n = ss ! n"
    by (simp add: ranked_spec_def ss_def)
  have "i \<le> n"
  proof (rule ccontr)
    assume "\<not> i \<le> n"
    then have "n \<le> i" by simp
    from falling_nth [OF f this i(1)] i(2) c n assms(4) show False by simp
  qed
  with assms(2) have "i < 50" by simp
  with i have "e \<in> set (take 50 ss)"
    by (auto simp add: in_set_conv_nth)
  then have "e \<in> set (ranked_spec ws)" by (simp add: ranked_spec_def ss_def)
  with e(2) show ?thesis by force
qed

lemma ranked_least:
  assumes "n < length (ranked_spec ws)" and "Suc n = 50" and "e \<in> set (ranked_spec ws)"
  shows "snd (ranked_spec ws ! n) \<le> snd e"
proof -
  from assms(3) obtain i where i: "i < length (ranked_spec ws)" "ranked_spec ws ! i = e"
    by (auto simp add: in_set_conv_nth)
  from i(1) ranked_length [of ws] assms(2) have "i \<le> n" by simp
  from falling_nth [OF ranked_falling this assms(1)] i(2) show ?thesis by simp
qed

text \<open>The sizes, on entries that are numbers.\<close>

lemma falling_last:
  assumes "sorted_wrt (\<lambda>a b. snd a \<ge> snd b) (sw :: (string \<times> nat) list)" and "e \<in> set sw"
  shows "snd (last sw) \<le> snd e"
proof -
  from assms(2) have ne: "sw \<noteq> []" by auto
  then have sw: "sw = butlast sw @ [last sw]" by simp
  from assms(2) sw have "e \<in> set (butlast sw) \<or> e = last sw"
    by (metis Un_iff empty_iff empty_set set_ConsD set_append)
  moreover have "\<forall>x \<in> set (butlast sw). snd x \<ge> snd (last sw)"
    using assms(1) sw by (metis list.set_intros(1) sorted_wrt_append)
  ultimately show ?thesis by auto
qed

lemma falling_first:
  assumes "sorted_wrt (\<lambda>a b. snd a \<ge> snd b) (sw :: (string \<times> nat) list)" and "e \<in> set sw"
  shows "snd e \<le> snd (hd sw)"
  using assms by (cases sw) auto

lemma ranked_bounds:
  assumes "e \<in> set (ranked_spec ws)"
  shows "snd (last (ranked_spec ws)) \<le> snd e \<and> snd e \<le> snd (hd (ranked_spec ws))"
  using falling_first [OF ranked_falling assms] falling_last [OF ranked_falling assms] by simp

lemma maxFreq_numbers:
  "sw \<noteq> [] \<Longrightarrow> 0 < snd (hd sw) \<Longrightarrow> maxFreq (map (\<lambda>e. (fst e, Num (snd e))) sw) = Num (snd (hd sw))"
  by (cases sw) (simp_all add: maxFreq_def)

lemma minFreq_numbers:
  "sw \<noteq> [] \<Longrightarrow> 0 < snd (last sw) \<Longrightarrow> minFreq (map (\<lambda>e. (fst e, Num (snd e))) sw) = Num (snd (last sw))"
  by (simp add: minFreq_def last_map)

lemma wordFrequencies_spec:
  assumes "inheritedFree comments"
  shows "wordFrequencies engine comments =
     map (\<lambda>e. \<lparr>word = fst e, frequency = Num (snd e),
            size_px = js_round (scale (js_divide
              (int (snd e) - int (snd (last (ranked_spec (words comments)))))
              (int (snd (hd (ranked_spec (words comments)))) -
               int (snd (last (ranked_spec (words comments)))))))\<rparr>)
       (ranked_spec (words comments))"
proof (cases "ranked_spec (words comments) = []")
  case True
  then show ?thesis
    by (simp add: wordFrequencies_sized sortedWords_spec [OF assms] sized_def)
next
  case False
  then have "hd (ranked_spec (words comments)) \<in> set (ranked_spec (words comments))"
      "last (ranked_spec (words comments)) \<in> set (ranked_spec (words comments))"
    by simp_all
  then have "0 < snd (hd (ranked_spec (words comments)))" "0 < snd (last (ranked_spec (words comments)))"
    using ranked_entry by blast+
  with False show ?thesis
    by (simp add: wordFrequencies_sized sortedWords_spec [OF assms] sized_def entry_def
        maxFreq_numbers minFreq_numbers comp_def)
qed

lemma wordFrequencies_words:
  "inheritedFree comments \<Longrightarrow>
     map word (wordFrequencies engine comments) = map fst (ranked_spec (words comments))"
  by (simp add: wordFrequencies_spec comp_def)

lemma wordFrequencies_numbers:
  "inheritedFree comments \<Longrightarrow>
     map frequency (wordFrequencies engine comments) = map Num (map snd (ranked_spec (words comments)))"
  by (simp add: wordFrequencies_spec comp_def)

lemma wordFrequencies_length:
  "inheritedFree comments \<Longrightarrow> length (wordFrequencies engine comments) = min 50 (card (set (words comments)))"
  by (simp add: wordFrequencies_spec ranked_length)

text \<open>The size when the two bounds differ: an integer, between 12 and 36, rising with the count.\<close>

lemma size_range:
  assumes "mn < mx" and "mn \<le> f" and "f \<le> mx"
  shows "12 \<le> \<lfloor>12 + (of_nat f - of_nat mn) / (of_nat mx - of_nat mn) * 24 + 1 / 2 :: rat\<rfloor> \<and>
         \<lfloor>12 + (of_nat f - of_nat mn) / (of_nat mx - of_nat mn) * 24 + 1 / 2 :: rat\<rfloor> \<le> 36"
proof -
  define x :: rat where "x = (of_nat f - of_nat mn) / (of_nat mx - of_nat mn)"
  have d: "(0::rat) < of_nat mx - of_nat mn" using assms(1) by simp
  have "0 \<le> x" unfolding x_def using assms d by simp
  moreover have "x \<le> 1" unfolding x_def using assms d by (simp add: divide_le_eq_1)
  ultimately have "(12::rat) \<le> 12 + x * 24 + 1 / 2" "12 + x * 24 + 1 / 2 < 37"
    by simp_all
  then have "12 \<le> \<lfloor>12 + x * 24 + 1 / 2\<rfloor>" "\<lfloor>12 + x * 24 + 1 / 2\<rfloor> < 37"
    by (simp_all add: le_floor_iff floor_less_iff)
  then show ?thesis unfolding x_def by simp
qed

lemma size_mono:
  assumes "mn < mx" and "f \<le> g"
  shows "\<lfloor>12 + (of_nat f - of_nat mn) / (of_nat mx - of_nat mn) * 24 + 1 / 2 :: rat\<rfloor>
       \<le> \<lfloor>12 + (of_nat g - of_nat mn) / (of_nat mx - of_nat mn) * 24 + 1 / 2 :: rat\<rfloor>"
proof -
  define x :: rat where "x = (of_nat f - of_nat mn) / (of_nat mx - of_nat mn)"
  define y :: rat where "y = (of_nat g - of_nat mn) / (of_nat mx - of_nat mn)"
  have d: "(0::rat) < of_nat mx - of_nat mn" using assms(1) by simp
  have "(of_nat f - of_nat mn :: rat) \<le> of_nat g - of_nat mn" using assms(2) by simp
  with d have "x \<le> y"
    unfolding x_def y_def by (simp add: divide_right_mono)
  then have "12 + x * 24 + 1 / 2 \<le> 12 + y * 24 + 1 / 2"
    by linarith
  then have "\<lfloor>12 + x * 24 + 1 / 2\<rfloor> \<le> \<lfloor>12 + y * 24 + 1 / 2\<rfloor>"
    by (rule floor_mono)
  then show ?thesis
    unfolding x_def y_def .
qed

lemma size_top:
  assumes "mn < mx"
  shows "\<lfloor>12 + (of_nat mx - of_nat mn) / (of_nat mx - of_nat mn) * 24 + 1 / 2 :: rat\<rfloor> = 36"
proof -
  have "(of_nat mx - of_nat mn :: rat) \<noteq> 0" using assms by simp
  then have "(of_nat mx - of_nat mn) / (of_nat mx - of_nat mn) = (1::rat)" by simp
  then show ?thesis by (simp add: floor_eq_iff)
qed

lemma size_bottom:
  "\<lfloor>12 + (of_nat mn - of_nat mn) / (of_nat mx - of_nat mn) * 24 + 1 / 2 :: rat\<rfloor> = 12"
  by (simp add: floor_eq_iff)

lemma wordFrequencies_sizes:
  assumes "inheritedFree comments"
    and "a \<in> set (wordFrequencies engine comments)" and "b \<in> set (wordFrequencies engine comments)"
    and "frequency a \<noteq> frequency b"
  shows "\<exists>ks. map size_px (wordFrequencies engine comments) = map (\<lambda>k. Finite (of_int k)) ks \<and>
           (\<forall>k \<in> set ks. 12 \<le> k \<and> k \<le> 36) \<and> sorted_wrt (\<ge>) ks \<and> hd ks = 36 \<and> last ks = 12"
proof -
  define sw where "sw = ranked_spec (words comments)"
  define mn where "mn = snd (last sw)"
  define mx where "mx = snd (hd sw)"
  define px :: "string \<times> nat \<Rightarrow> int" where
    "px e = \<lfloor>12 + (of_nat (snd e) - of_nat mn) / (of_nat mx - of_nat mn) * 24 + 1 / 2 :: rat\<rfloor>" for e
  note spec = wordFrequencies_spec [OF assms(1), of engine, folded sw_def, folded mn_def mx_def]
  from assms(2,3) obtain x y where xy: "x \<in> set sw" "y \<in> set sw"
      "frequency a = Num (snd x)" "frequency b = Num (snd y)"
    unfolding spec by auto
  then have ne: "sw \<noteq> []" by auto
  have bd: "mn \<le> snd e \<and> snd e \<le> mx" if "e \<in> set sw" for e
    using that ranked_bounds [of e "words comments"] by (simp add: sw_def mn_def mx_def)
  from bd [OF xy(1)] bd [OF xy(2)] xy(3,4) assms(4) have lt: "mn < mx" by auto
  have s: "map size_px (wordFrequencies engine comments) = map (\<lambda>k. Finite (of_int k)) (map px sw)"
    unfolding spec using lt by (simp add: js_divide_def px_def)
  have r: "\<forall>k \<in> set (map px sw). 12 \<le> k \<and> k \<le> 36"
    using bd size_range [OF lt] by (auto simp add: px_def)
  have pm: "px v \<le> px u" if "snd v \<le> snd u" for u v
    unfolding px_def using size_mono [OF lt that] .
  have f: "sorted_wrt (\<lambda>a b. snd a \<ge> snd b) sw"
    unfolding sw_def by (rule ranked_falling)
  have "sorted_wrt (\<lambda>a b. px a \<ge> px b) sw"
  proof (rule sorted_wrt_mono_rel [OF _ f])
    fix u v :: "string \<times> nat"
    assume "snd v \<le> snd u"
    then show "px v \<le> px u" by (rule pm)
  qed
  then have m: "sorted_wrt (\<ge>) (map px sw)"
    by (simp add: sorted_wrt_map)
  have h: "hd (map px sw) = 36"
    using ne size_top [OF lt] by (simp add: hd_map px_def mx_def)
  have l: "last (map px sw) = 12"
    using ne size_bottom [of mn mx] by (simp add: last_map px_def mn_def)
  from s r m h l show ?thesis by blast
qed

text \<open>When all retained frequencies agree, no size is a number.\<close>

lemma uniform_sizes:
  assumes "inheritedFree comments"
    and "\<forall>a \<in> set (wordFrequencies engine comments).
           \<forall>b \<in> set (wordFrequencies engine comments). frequency a = frequency b"
    and "e \<in> set (wordFrequencies engine comments)"
  shows "size_px e = NaN"
proof -
  define sw where "sw = ranked_spec (words comments)"
  note spec = wordFrequencies_spec [OF assms(1), of engine, folded sw_def]
  from assms(3) obtain x where x: "x \<in> set sw"
      "size_px e = js_round (scale (js_divide (int (snd x) - int (snd (last sw)))
         (int (snd (hd sw)) - int (snd (last sw)))))"
    unfolding spec by auto
  then have ne: "sw \<noteq> []" by auto
  have eq: "snd u = snd v" if "u \<in> set sw" "v \<in> set sw" for u v
  proof -
    from that have "\<lparr>word = fst u, frequency = Num (snd u),
          size_px = js_round (scale (js_divide (int (snd u) - int (snd (last sw)))
            (int (snd (hd sw)) - int (snd (last sw)))))\<rparr> \<in> set (wordFrequencies engine comments)"
        "\<lparr>word = fst v, frequency = Num (snd v),
          size_px = js_round (scale (js_divide (int (snd v) - int (snd (last sw)))
            (int (snd (hd sw)) - int (snd (last sw)))))\<rparr> \<in> set (wordFrequencies engine comments)"
      unfolding spec by auto
    with assms(2) show ?thesis by fastforce
  qed
  from ne have "hd sw \<in> set sw" "last sw \<in> set sw" by simp_all
  with x(1) eq have "snd x = snd (last sw)" "snd (hd sw) = snd (last sw)" by blast+
  with x(2) show ?thesis by (simp add: js_divide_def)
qed

text \<open>
  C5, as amended. For every corpus without the token "constructor" and on every engine, the
  ranking has at most 50 entries; its frequencies are numbers that never rise along the list;
  of two entries with the same frequency, the one whose word occurs first in the token
  stream comes first. When two retained entries differ in frequency, every size is an
  integer between 12 and 36, the sizes never rise along the list, the first is 36 and the
  last is 12.
\<close>

theorem ranking_shape:
  assumes "inheritedFree comments"
  shows "let r = wordFrequencies engine comments; ws = words comments in
     length r \<le> 50 \<and>
     (\<exists>ns. map frequency r = map Num ns \<and> sorted_wrt (\<ge>) ns) \<and>
     sorted_wrt (\<lambda>a b. frequency a = frequency b \<longrightarrow>
        firstSeen ws (word a) < firstSeen ws (word b)) r \<and>
     ((\<exists>a \<in> set r. \<exists>b \<in> set r. frequency a \<noteq> frequency b) \<longrightarrow>
        (\<exists>ks. map size_px r = map (\<lambda>k. Finite (of_int k)) ks \<and>
           (\<forall>k \<in> set ks. 12 \<le> k \<and> k \<le> 36) \<and> sorted_wrt (\<ge>) ks \<and>
           hd ks = 36 \<and> last ks = 12))"
proof -
  have a: "length (wordFrequencies engine comments) \<le> 50"
    by (simp add: wordFrequencies_length [OF assms])
  have "sorted_wrt (\<ge>) (map snd (ranked_spec (words comments)))"
    using ranked_falling [of "words comments"] by (simp add: sorted_wrt_map)
  with wordFrequencies_numbers [OF assms, of engine]
  have b: "\<exists>ns. map frequency (wordFrequencies engine comments) = map Num ns \<and> sorted_wrt (\<ge>) ns"
    by blast
  have c: "sorted_wrt (\<lambda>a b. frequency a = frequency b \<longrightarrow>
      firstSeen (words comments) (word a) < firstSeen (words comments) (word b))
      (wordFrequencies engine comments)"
    using ranked_ties [of "words comments"]
    by (simp add: wordFrequencies_spec [OF assms] sorted_wrt_map)
  have d: "(\<exists>a \<in> set (wordFrequencies engine comments).
        \<exists>b \<in> set (wordFrequencies engine comments). frequency a \<noteq> frequency b) \<longrightarrow>
      (\<exists>ks. map size_px (wordFrequencies engine comments) = map (\<lambda>k. Finite (of_int k)) ks \<and>
         (\<forall>k \<in> set ks. 12 \<le> k \<and> k \<le> 36) \<and> sorted_wrt (\<ge>) ks \<and> hd ks = 36 \<and> last ks = 12)"
    using wordFrequencies_sizes [OF assms] by blast
  from a b c d show ?thesis
    unfolding Let_def by blast
qed

lemma threeCounts_free: "inheritedFree threeCounts"
  by (simp add: inheritedFree_def threeCounts_words)

text \<open>
  Counts 3, 2, 1 and 1 give the sizes 36, 24, 12 and 12; "alpha" and "beta" both occur once,
  and "alpha", seen first, is ranked first.
\<close>

theorem ranking_shape_witness:
  "inheritedFree threeCounts \<and>
   (\<exists>a \<in> set (wordFrequencies reversing threeCounts).
      \<exists>b \<in> set (wordFrequencies reversing threeCounts). frequency a \<noteq> frequency b) \<and>
   map word (wordFrequencies reversing threeCounts) = [''delta'', ''gamma'', ''alpha'', ''beta''] \<and>
   map frequency (wordFrequencies reversing threeCounts) = map Num [3, 2, 1, 1] \<and>
   firstSeen (words threeCounts) ''alpha'' < firstSeen (words threeCounts) ''beta'' \<and>
   map size_px (wordFrequencies reversing threeCounts) = map (\<lambda>k. Finite (of_int k)) [36, 24, 12, 12]"
proof -
  have d: "\<exists>a \<in> set (wordFrequencies reversing threeCounts).
      \<exists>b \<in> set (wordFrequencies reversing threeCounts). frequency a \<noteq> frequency b"
    unfolding threeCounts_ranked
    by (rule bexI [of _ "\<lparr>word = ''delta'', frequency = Num 3, size_px = Finite 36\<rparr>"],
        rule bexI [of _ "\<lparr>word = ''gamma'', frequency = Num 2, size_px = Finite 24\<rparr>"]) simp_all
  have v: "map word (wordFrequencies reversing threeCounts) = [''delta'', ''gamma'', ''alpha'', ''beta''] \<and>
      map frequency (wordFrequencies reversing threeCounts) = map Num [3, 2, 1, 1] \<and>
      map size_px (wordFrequencies reversing threeCounts) = map (\<lambda>k. Finite (of_int k)) [36, 24, 12, 12]"
    by (simp add: threeCounts_ranked)
  have "sorted_wrt (\<lambda>a b. frequency a = frequency b \<longrightarrow>
      firstSeen (words threeCounts) (word a) < firstSeen (words threeCounts) (word b))
      (wordFrequencies reversing threeCounts)"
    using ranking_shape [OF threeCounts_free, of reversing] unfolding Let_def by blast
  then have t: "firstSeen (words threeCounts) ''alpha'' < firstSeen (words threeCounts) ''beta''"
    by (simp add: threeCounts_ranked)
  from threeCounts_free d v t show ?thesis by blast
qed

text \<open>
  C5 as stated fails where two words are equally frequent: "alpha" and "beta" both occur
  once, so the frequencies 3, 2, 1, 1 are not strictly descending.
\<close>

theorem strictly_falling_counterexample:
  "\<not> (\<exists>ns. map frequency (wordFrequencies reversing threeCounts) = map Num ns \<and> sorted_wrt (>) ns)"
proof
  assume "\<exists>ns. map frequency (wordFrequencies reversing threeCounts) = map Num ns \<and> sorted_wrt (>) ns"
  then obtain ns where ns: "map Num [3, 2, 1, 1] = map Num ns" "sorted_wrt (>) ns"
    by (auto simp add: threeCounts_ranked)
  have "inj Num" by (simp add: inj_def)
  with ns(1) have "ns = [3, 2, 1, 1]"
    by (simp only: inj_map_eq_map)
  with ns(2) show False by simp
qed

section \<open>The truncation to 50 entries\<close>

text \<open>
  C7, as amended. For every corpus without the token "constructor" and on every engine, the
  ranking has as many entries as there are distinct tokens, and 50 when there are more; its
  words are distinct tokens, each with the number of its occurrences as its frequency. When
  at most 50 tokens are distinct, the words of the ranking are all the tokens. When 50 or
  more are distinct, the ranking holds every token that occurs more often than its 50th
  entry, and none of its entries occurs less often than the 50th; tokens that occur exactly
  as often as the 50th entry may be left out.
\<close>

theorem truncation:
  assumes "inheritedFree comments"
  shows "let r = wordFrequencies engine comments; ws = words comments in
     length r = min 50 (card (set ws)) \<and>
     distinct (map word r) \<and>
     (\<forall>e \<in> set r. word e \<in> set ws \<and> frequency e = Num (count_list ws (word e))) \<and>
     (card (set ws) \<le> 50 \<longrightarrow> set (map word r) = set ws) \<and>
     (50 \<le> card (set ws) \<longrightarrow>
        (\<forall>w \<in> set ws. count_list ws (word (r ! 49)) < count_list ws w \<longrightarrow> w \<in> set (map word r)) \<and>
        (\<forall>e \<in> set r. count_list ws (word (r ! 49)) \<le> count_list ws (word e)))"
proof -
  define ws where "ws = words comments"
  define r where "r = wordFrequencies engine comments"
  define R where "R = ranked_spec ws"
  have w: "map word r = map fst R"
    unfolding r_def R_def ws_def by (rule wordFrequencies_words [OF assms])
  have l: "length r = min 50 (card (set ws))"
    unfolding r_def ws_def by (rule wordFrequencies_length [OF assms])
  have lR: "length R = length r"
    using w by (metis length_map)
  have a: "distinct (map word r)"
    unfolding w R_def by (rule ranked_distinct)
  have en: "word e \<in> set ws \<and> frequency e = Num (count_list ws (word e))" if "e \<in> set r" for e
  proof -
    from that obtain x where x: "x \<in> set R" "word e = fst x" "frequency e = Num (snd x)"
      unfolding r_def R_def ws_def wordFrequencies_spec [OF assms] by auto
    from ranked_entry [of x ws] x show ?thesis by (simp add: R_def)
  qed
  have c: "card (set ws) \<le> 50 \<longrightarrow> set (map word r) = set ws"
    unfolding w using ranked_all [of ws] by (simp add: R_def)
  have d: "(\<forall>w \<in> set ws. count_list ws (word (r ! 49)) < count_list ws w \<longrightarrow> w \<in> set (map word r)) \<and>
      (\<forall>e \<in> set r. count_list ws (word (r ! 49)) \<le> count_list ws (word e))"
    if "50 \<le> card (set ws)"
  proof -
    from that l have n: "49 < length r" by simp
    with lR have nR: "49 < length R" by simp
    have s: "Suc 49 = 50" by simp
    from n have "r ! 49 \<in> set r" by simp
    from en [OF this] have "frequency (r ! 49) = Num (count_list ws (word (r ! 49)))" by simp
    moreover from n nR have "frequency (r ! 49) = Num (snd (R ! 49))"
      unfolding r_def R_def ws_def wordFrequencies_spec [OF assms] by simp
    ultimately have k: "snd (R ! 49) = count_list ws (word (r ! 49))" by simp
    have "w \<in> set (map word r)" if "w \<in> set ws" "count_list ws (word (r ! 49)) < count_list ws w" for w
      using ranked_above [OF nR [unfolded R_def] s that(1)] that(2) k
      unfolding w by (simp add: R_def)
    moreover have "count_list ws (word (r ! 49)) \<le> count_list ws (word e)" if "e \<in> set r" for e
    proof -
      from that obtain x where x: "x \<in> set R" "word e = fst x"
        unfolding r_def R_def ws_def wordFrequencies_spec [OF assms] by auto
      from ranked_least [OF nR [unfolded R_def] s x(1) [unfolded R_def]] ranked_entry [of x ws] x k
      show ?thesis by (simp add: R_def)
    qed
    ultimately show ?thesis by blast
  qed
  from l a en c d show ?thesis
    unfolding Let_def r_def [symmetric] ws_def [symmetric] by blast
qed

lemma fiftyOne_candidates:
  "candidates fiftyOne = [''qaa'', ''qab'', ''qac'', ''qad'', ''qae'', ''qaf'', ''qag'', ''qah'', ''qai'',
     ''qaj'', ''qak'', ''qal'', ''qam'', ''qan'', ''qao'', ''qap'', ''qaq'', ''qar'', ''qas'', ''qat'',
     ''qau'', ''qav'', ''qaw'', ''qax'', ''qay'', ''qaz'', ''qba'', ''qbb'', ''qbc'', ''qbd'', ''qbe'',
     ''qbf'', ''qbg'', ''qbh'', ''qbi'', ''qbj'', ''qbk'', ''qbl'', ''qbm'', ''qbn'', ''qbo'', ''qbp'',
     ''qbq'', ''qbr'', ''qbs'', ''qbt'', ''qbu'', ''qbv'', ''qbw'', ''qbx'', ''qby'']"
  by (simp add: fiftyOne_def tokenizer_eval)

lemma q_word_meaningful:
  "isLetter a \<Longrightarrow> isLetter b \<Longrightarrow> isMeaningfulWord [CHR ''q'', a, b]"
  by (simp add: meaningful_eval isLetter_def code_def)

lemma fiftyOne_words: "words fiftyOne = candidates fiftyOne"
  unfolding words_def fiftyOne_candidates
  by (simp add: q_word_meaningful isLetter_def code_def)

lemma fiftyOne_sorted:
  "sortedWords engine fiftyOne = map (\<lambda>w. (w, Num 1)) (take 50 (words fiftyOne))"
  unfolding sortedWords_def fiftyOne_words fiftyOne_candidates
  by (simp add: sortEntries_def wordCount_def countWord_def sort_key_def)

lemma fiftyOne_ranked:
  "map word (wordFrequencies engine fiftyOne) = take 50 (words fiftyOne) \<and>
   frequency (wordFrequencies engine fiftyOne ! 49) = Num 1"
  unfolding wordFrequencies_sized fiftyOne_sorted fiftyOne_words fiftyOne_candidates
  by (simp add: sized_def entry_def)

text \<open>
  C7 as stated fails on 51 distinct words that occur once each: the 50th entry has frequency
  1, all 51 tokens occur at least that often, and the ranking holds only the first 50 of them.
\<close>

theorem round_trip_counterexample: "\<not> roundTrip_spec reversing fiftyOne"
proof
  assume spec: "roundTrip_spec reversing fiftyOne"
  have nl: "\<not> length (remdups (words fiftyOne)) < 50"
    unfolding fiftyOne_words fiftyOne_candidates by simp
  from spec nl have "set (map word (wordFrequencies reversing fiftyOne)) =
      {w \<in> set (words fiftyOne).
         reaches (count_list (words fiftyOne) w) (frequency (wordFrequencies reversing fiftyOne ! 49))}"
    by (simp only: roundTrip_spec_def Let_def if_False)
  then have eq: "set (take 50 (words fiftyOne)) =
      {w \<in> set (words fiftyOne). reaches (count_list (words fiftyOne) w) (Num 1)}"
    unfolding fiftyOne_ranked [THEN conjunct1] fiftyOne_ranked [THEN conjunct2] .
  have m: "''qby'' \<in> set (words fiftyOne)"
    unfolding fiftyOne_words fiftyOne_candidates by simp
  then have "count_list (words fiftyOne) ''qby'' \<noteq> 0"
    by (simp add: count_list_0_iff)
  with m have "''qby'' \<in> {w \<in> set (words fiftyOne). reaches (count_list (words fiftyOne) w) (Num 1)}"
    by simp
  moreover have "''qby'' \<notin> set (take 50 (words fiftyOne))"
    unfolding fiftyOne_words fiftyOne_candidates by simp
  ultimately show False using eq by blast
qed

lemma fiftyOneTwice_words: "words fiftyOneTwice = words fiftyOne @ [''qby'']"
proof -
  have "candidates fiftyOneTwice = candidates fiftyOne @ [''qby'']"
    unfolding fiftyOne_candidates by (simp add: fiftyOneTwice_def fiftyOne_def tokenizer_eval)
  then show ?thesis
    unfolding words_def by (simp add: q_word_meaningful isLetter_def code_def)
qed

lemma fiftyOneTwice_sorted:
  "sortedWords engine fiftyOneTwice =
     (''qby'', Num 2) # map (\<lambda>w. (w, Num 1)) (take 49 (words fiftyOne))"
  unfolding sortedWords_def fiftyOneTwice_words fiftyOne_words fiftyOne_candidates
  by (simp add: sortEntries_def wordCount_def countWord_def sort_key_def)

lemma fiftyOneTwice_ranked:
  "length (wordFrequencies engine fiftyOneTwice) = 50 \<and>
   word (wordFrequencies engine fiftyOneTwice ! 49) = ''qbw'' \<and>
   ''qbx'' \<notin> set (map word (wordFrequencies engine fiftyOneTwice))"
  unfolding wordFrequencies_sized fiftyOneTwice_sorted fiftyOne_words fiftyOne_candidates
  by (simp add: sized_def entry_def)

text \<open>
  Four distinct tokens are all ranked. Of 51 distinct tokens 50 are ranked: the one that
  occurs twice is among them although it is the last to appear, and the 50th entry is "qbw".
\<close>

theorem truncation_witness:
  "inheritedFree threeCounts \<and> card (set (words threeCounts)) \<le> 50 \<and>
   length (wordFrequencies reversing threeCounts) = 4 \<and>
   set (map word (wordFrequencies reversing threeCounts)) = set (words threeCounts) \<and>
   inheritedFree fiftyOneTwice \<and> 50 \<le> card (set (words fiftyOneTwice)) \<and>
   length (wordFrequencies reversing fiftyOneTwice) = 50 \<and>
   ''qby'' \<in> set (words fiftyOneTwice) \<and>
   count_list (words fiftyOneTwice) (word (wordFrequencies reversing fiftyOneTwice ! 49))
     < count_list (words fiftyOneTwice) ''qby'' \<and>
   ''qby'' \<in> set (map word (wordFrequencies reversing fiftyOneTwice))"
proof -
  have c3: "card (set (words threeCounts)) = 4"
    by (simp add: threeCounts_words card_insert_if)
  have i: "inheritedFree fiftyOneTwice"
    unfolding inheritedFree_def fiftyOneTwice_words fiftyOne_words fiftyOne_candidates by simp
  have "distinct (words fiftyOne)"
    unfolding fiftyOne_words fiftyOne_candidates by simp
  then have "card (set (words fiftyOne)) = 51"
    unfolding distinct_card fiftyOne_words fiftyOne_candidates by simp
  moreover have "set (words fiftyOneTwice) = set (words fiftyOne)"
    unfolding fiftyOneTwice_words fiftyOne_words fiftyOne_candidates by auto
  ultimately have c: "50 \<le> card (set (words fiftyOneTwice))" by simp
  have m: "''qby'' \<in> set (words fiftyOneTwice)"
    by (simp add: fiftyOneTwice_words)
  have f: "count_list (words fiftyOneTwice) (word (wordFrequencies reversing fiftyOneTwice ! 49))
      < count_list (words fiftyOneTwice) ''qby''"
    unfolding fiftyOneTwice_ranked [THEN conjunct2, THEN conjunct1]
    unfolding fiftyOneTwice_words fiftyOne_words fiftyOne_candidates by simp
  from truncation [OF threeCounts_free, of reversing] c3
  have a: "length (wordFrequencies reversing threeCounts) = 4 \<and>
      set (map word (wordFrequencies reversing threeCounts)) = set (words threeCounts)"
    unfolding Let_def by simp
  from truncation [OF i, of reversing] c m f
  have b: "length (wordFrequencies reversing fiftyOneTwice) = 50 \<and>
      ''qby'' \<in> set (map word (wordFrequencies reversing fiftyOneTwice))"
    unfolding Let_def by auto
  from threeCounts_free c3 a i c m f b show ?thesis by simp
qed

section \<open>Two runs of the ranker\<close>

text \<open>The sort of the model is a stable sort, and every stable sort returns what it returns.\<close>

lemma stableSorted_sort:
  "stableSorted es (sort_key (\<lambda>e. - int (snd e)) es)"
proof -
  have "filter (\<lambda>e. snd e = n) (sort_key (\<lambda>e. - int (snd e)) es) = filter (\<lambda>e. snd e = n) es" for n
    using sort_key_stable [of "\<lambda>e. - int (snd e)" "- int n" es] by simp
  then show ?thesis
    unfolding stableSorted_def by (simp add: sort_falling)
qed

lemma stableSorted_unique:
  assumes "stableSorted es ss"
  shows "ss = sort_key (\<lambda>e. - int (snd e)) es"
proof (rule properties_for_sort_key [symmetric])
  show "mset ss = mset es"
    using assms by (simp add: stableSorted_def)
next
  fix k
  assume "k \<in> set ss"
  from assms have "\<forall>n. filter (\<lambda>e. snd e = n) ss = filter (\<lambda>e. snd e = n) es"
    unfolding stableSorted_def by blast
  then have f: "filter (\<lambda>e. snd e = snd k) ss = filter (\<lambda>e. snd e = snd k) es"
    by (rule spec)
  have e: "(\<lambda>x. - int (snd k) = - int (snd x)) = (\<lambda>e. snd e = snd k)"
    by auto
  show "filter (\<lambda>x. - int (snd k) = - int (snd x)) ss
      = filter (\<lambda>x. - int (snd k) = - int (snd x)) es"
    unfolding e by (rule f)
next
  have "sorted_wrt (\<lambda>a b. snd a \<ge> snd b) ss"
    using assms by (simp add: stableSorted_def)
  then show "sorted (map (\<lambda>e. - int (snd e)) ss)"
    by (simp add: sorted_wrt_map)
qed

lemma sortResult_iff: "sortResult engine es ss \<longleftrightarrow> ss = sortEntries engine es"
proof (cases "numbers es")
  case None
  then show ?thesis by (simp add: sortResult_def sortEntries_def)
next
  case (Some ns)
  have "(\<exists>ms. stableSorted ns ms \<and> ss = map (\<lambda>e. (fst e, Num (snd e))) ms)
      \<longleftrightarrow> ss = map (\<lambda>e. (fst e, Num (snd e))) (sort_key (\<lambda>e. - int (snd e)) ns)"
    using stableSorted_sort stableSorted_unique by blast
  with Some show ?thesis by (simp add: sortResult_def sortEntries_def)
qed

lemma ranking_iff: "ranking engine comments r \<longleftrightarrow> r = wordFrequencies engine comments"
  by (simp add: ranking_def wordFrequencies_def sortedWords_def sortResult_iff)

text \<open>
  C9. For every corpus and on every engine, two runs of the ranker on the same comment
  sequence return the same list: the same words, frequencies, order and sizes. Where the
  counts are numbers the language fixes the order whatever the engine's sort does; where the
  word "constructor" makes one count a text, the order is the one this engine gives.
\<close>

theorem ranking_deterministic:
  assumes "ranking engine comments r1" and "ranking engine comments r2"
  shows "r1 = r2"
  using assms by (simp add: ranking_iff)

text \<open>
  Two runs on the corpus with the inherited name, and two on the corpus with counts 3, 2, 1
  and 1.
\<close>

theorem ranking_deterministic_witness:
  "ranking reversing withConstructor (wordFrequencies reversing withConstructor) \<and>
   ranking reversing withConstructor
     [\<lparr>word = ''twice'', frequency = Num 1, size_px = NaN\<rparr>,
      \<lparr>word = ''signs'', frequency = Num 2, size_px = NaN\<rparr>,
      \<lparr>word = ''constructor'', frequency = ObjectText 2, size_px = NaN\<rparr>] \<and>
   ranking reversing threeCounts (wordFrequencies reversing threeCounts) \<and>
   ranking reversing threeCounts
     [\<lparr>word = ''delta'', frequency = Num 3, size_px = Finite 36\<rparr>,
      \<lparr>word = ''gamma'', frequency = Num 2, size_px = Finite 24\<rparr>,
      \<lparr>word = ''alpha'', frequency = Num 1, size_px = Finite 12\<rparr>,
      \<lparr>word = ''beta'', frequency = Num 1, size_px = Finite 12\<rparr>]"
proof -
  have a: "ranking reversing withConstructor (wordFrequencies reversing withConstructor)"
    by (simp add: ranking_iff)
  have a': "ranking reversing withConstructor
     [\<lparr>word = ''twice'', frequency = Num 1, size_px = NaN\<rparr>,
      \<lparr>word = ''signs'', frequency = Num 2, size_px = NaN\<rparr>,
      \<lparr>word = ''constructor'', frequency = ObjectText 2, size_px = NaN\<rparr>]"
    using a by (simp only: withConstructor_ranked)
  have b: "ranking reversing threeCounts (wordFrequencies reversing threeCounts)"
    by (simp add: ranking_iff)
  have b': "ranking reversing threeCounts
     [\<lparr>word = ''delta'', frequency = Num 3, size_px = Finite 36\<rparr>,
      \<lparr>word = ''gamma'', frequency = Num 2, size_px = Finite 24\<rparr>,
      \<lparr>word = ''alpha'', frequency = Num 1, size_px = Finite 12\<rparr>,
      \<lparr>word = ''beta'', frequency = Num 1, size_px = Finite 12\<rparr>]"
    using b by (simp only: threeCounts_ranked)
  from ranking_deterministic [OF a a'] ranking_deterministic [OF b b'] a a' b b'
  show ?thesis by blast
qed

end
